theory Spec2Isabelle
  imports Main "HOL-Library.Word" "HOL-Library.Multiset" "HOL-Library.Sublist"
begin

section \<open>MyContainer: the backing store\<close>

text \<open>
  The element type \<open>T\<close> of \<open>myns::MyContainer<T>\<close> has \<open>operator==\<close> and \<open>operator<\<close>
  (the static assertions of the class); where the code compares elements with \<open><\<close>, \<open>T\<close>
  is a type of class \<open>linorder\<close>, and \<open>==\<close> is HOL equality. \<open>size_t\<close> is a 64-bit word
  and \<open>int\<close> has 32 bits. A \<open>std::vector\<close> is a list; a vector holds fewer than \<open>2^64\<close>
  elements, which the facts about whole vectors assume. The exceptions the code throws
  are values of \<open>error\<close> (\<open>std::runtime_error\<close>, \<open>std::out_of_range\<close>); reading a vector
  out of range with the unchecked \<open>operator[]\<close> and signed overflow are
  \<open>undefined_behaviour\<close>.
\<close>

type_synonym size_t = "64 word"

datatype error = runtime_error | out_of_range | undefined_behaviour

record 'a MyContainer =
  data :: "'a list"

text \<open>\<open>std::vector::size()\<close>, a \<open>size_t\<close>.\<close>

definition vec_size :: "'a list \<Rightarrow> size_t" where
  "vec_size xs = of_nat (length xs)"

text \<open>\<open>MyContainer()\<close>: the empty container.\<close>

definition MyContainer_ctor :: "'a MyContainer" where
  "MyContainer_ctor = \<lparr>data = []\<rparr>"

text \<open>\<open>add\<close>: \<open>data.push_back(value)\<close>.\<close>

definition add :: "'a \<Rightarrow> 'a MyContainer \<Rightarrow> 'a MyContainer" where
  "add v c = c\<lparr>data := data c @ [v]\<rparr>"

text \<open>
  \<open>std::find(first, last, value)\<close> over the whole vector: the index of the first slot
  equal to \<open>value\<close>, or the length of the vector (the position of \<open>end()\<close>).
\<close>

fun std_find :: "'a list \<Rightarrow> 'a \<Rightarrow> nat" where
  "std_find [] v = 0"
| "std_find (x # xs) v = (if x = v then 0 else Suc (std_find xs v))"

text \<open>
  The parameter of \<open>remove\<close> and of \<open>std::remove\<close> is a reference, \<open>const T& value\<close>. It
  refers to an object outside the vector, whose value no write to the vector changes, or
  to a slot of the vector itself, as in \<open>c.remove(c[0])\<close>; then it reads whatever that slot
  holds at the moment of the read.
\<close>

datatype 'a const_ref = Value 'a | Element nat

fun read_ref :: "'a list \<Rightarrow> 'a const_ref \<Rightarrow> 'a" where
  "read_ref xs (Value v) = v"
| "read_ref xs (Element i) = xs ! i"

fun dangling :: "'a list \<Rightarrow> 'a const_ref \<Rightarrow> bool" where
  "dangling xs (Value v) = False"
| "dangling xs (Element i) = (length xs \<le> i)"

text \<open>
  \<open>std::remove(first, last, value)\<close>: from the first match on, every slot that differs
  from \<open>value\<close> is moved down to the write position \<open>result\<close>; the function returns the
  vector as it stands and the final write position (the new logical end). Each comparison
  reads \<open>value\<close> through the reference. The read position starts below the end and moves
  up by one, so \<open>first != last\<close> is \<open>first < length xs\<close>. A slot that was moved from lies
  behind the read position; it is written again or cut off by \<open>erase\<close>, so a move is
  modelled as a copy.
\<close>

function remove_loop :: "'a const_ref \<Rightarrow> 'a list \<Rightarrow> nat \<Rightarrow> nat \<Rightarrow> 'a list \<times> nat" where
  "remove_loop val xs result first =
     (if first < length xs then
        (if \<not> (xs ! first = read_ref xs val)
         then remove_loop val (xs[result := xs ! first]) (Suc result) (Suc first)
         else remove_loop val xs result (Suc first))
      else (xs, result))"
  by pat_completeness auto
termination
  by (relation "measure (\<lambda>(val, xs, result, first). length xs - first)") auto

declare remove_loop.simps [simp del]

definition std_remove :: "'a list \<Rightarrow> 'a const_ref \<Rightarrow> 'a list \<times> nat" where
  "std_remove xs val =
     (let first = std_find xs (read_ref xs val) in
      if first = length xs then (xs, first)
      else remove_loop val xs first (Suc first))"

text \<open>\<open>data.erase(it, data.end())\<close>: the vector is cut at \<open>it\<close>.\<close>

definition erase_to_end :: "'a list \<times> nat \<Rightarrow> 'a list" where
  "erase_to_end p = take (snd p) (fst p)"

text \<open>
  \<open>remove\<close>: throws \<open>std::runtime_error\<close> before touching the vector when no slot equals
  \<open>value\<close>; otherwise compacts the vector. The result is the outcome of the call together
  with the container as the call leaves it. A reference to a slot the vector does not have
  is no valid argument.
\<close>

definition remove :: "'a const_ref \<Rightarrow> 'a MyContainer \<Rightarrow> (error + unit) \<times> 'a MyContainer" where
  "remove val c =
     (if dangling (data c) val then (Inl undefined_behaviour, c)
      else if std_find (data c) (read_ref (data c) val) = length (data c)
      then (Inl runtime_error, c)
      else (Inr (), c\<lparr>data := erase_to_end (std_remove (data c) val)\<rparr>))"

definition size_c :: "'a MyContainer \<Rightarrow> size_t" where
  "size_c c = vec_size (data c)"

definition get_data :: "'a MyContainer \<Rightarrow> 'a list" where
  "get_data c = data c"

text \<open>
  \<open>at\<close> is \<open>std::vector::at\<close>, bounds-checked; \<open>operator[]\<close> is unchecked. Both return a
  reference to the slot.
\<close>

definition at :: "'a MyContainer \<Rightarrow> size_t \<Rightarrow> error + 'a const_ref" where
  "at c index =
     (if index < vec_size (data c) then Inr (Element (unat index)) else Inl out_of_range)"

definition subscript :: "'a MyContainer \<Rightarrow> size_t \<Rightarrow> 'a const_ref" where
  "subscript c index = Element (unat index)"

section \<open>The memory the views refer to\<close>

text \<open>
  Every view keeps \<open>const MyContainer& cont\<close>, a reference to the container it was made
  from. A reference is an address; the heap maps addresses to containers, and mutating a
  container updates the heap at its address. Whatever a view reads through \<open>cont\<close> is read
  from the heap of the moment of the read.
\<close>

type_synonym ref = nat

type_synonym 'a heap = "ref \<Rightarrow> 'a MyContainer"

datatype 'a mutation = Add 'a | Remove 'a

text \<open>
  One call of \<open>add\<close> or \<open>remove\<close> on the container at address \<open>r\<close>, with a value of the
  caller's; the caller catches the exception of a failing \<open>remove\<close> and goes on.
\<close>

fun apply_mutation :: "ref \<Rightarrow> 'a mutation \<Rightarrow> 'a heap \<Rightarrow> 'a heap" where
  "apply_mutation r (Add v) h = h(r := add v (h r))"
| "apply_mutation r (Remove v) h = h(r := snd (remove (Value v) (h r)))"

definition mutate :: "ref \<Rightarrow> 'a mutation list \<Rightarrow> 'a heap \<Rightarrow> 'a heap" where
  "mutate r ms h = fold (apply_mutation r) ms h"

section \<open>Library algorithms the views use\<close>

text \<open>
  \<open>std::sort(first, last, comp)\<close>. The library does not fix the algorithm; on a linear
  order the result is the one sorted permutation of the input whatever the algorithm is
  (\<open>std_sort_unique\<close> below), so insertion sort stands for it. \<open>std::sort(first, last)\<close>
  compares with \<open>operator<\<close>, \<open>std::greater<T>()\<close> with \<open>operator>\<close>.
\<close>

fun insert_by :: "('a \<Rightarrow> 'a \<Rightarrow> bool) \<Rightarrow> 'a \<Rightarrow> 'a list \<Rightarrow> 'a list" where
  "insert_by lt x [] = [x]"
| "insert_by lt x (y # ys) = (if lt x y then x # y # ys else y # insert_by lt x ys)"

definition std_sort :: "('a \<Rightarrow> 'a \<Rightarrow> bool) \<Rightarrow> 'a list \<Rightarrow> 'a list" where
  "std_sort lt xs = foldr (insert_by lt) xs []"

definition std_greater :: "'a::linorder \<Rightarrow> 'a \<Rightarrow> bool" where
  "std_greater a b = (a > b)"

section \<open>Cursor positions\<close>

text \<open>
  Every traversal loop below runs a position \<open>pos\<close> towards an end position with \<open>++pos\<close>
  until both are equal; the distance still to go, read modulo \<open>2^64\<close>, shrinks with each
  step.
\<close>

lemma size_t_pred_less: "w \<noteq> 0 \<Longrightarrow> unat (w - 1) < unat (w :: size_t)"
  by (simp add: unat_minus_one unat_gt_0)

lemma size_t_gap_less: "p \<noteq> e \<Longrightarrow> unat (e - (p + 1)) < unat (e - p :: size_t)"
  using size_t_pred_less [of "e - p"] by (simp add: diff_diff_eq)

section \<open>AscendingOrder\<close>

record 'a AscendingOrder =
  cont :: ref
  sorted_vec :: "'a list"
  pos :: size_t

definition AscendingOrder_ctor :: "('a::linorder) heap \<Rightarrow> ref \<Rightarrow> 'a AscendingOrder" where
  "AscendingOrder_ctor h c =
     \<lparr>AscendingOrder.cont = c, sorted_vec = std_sort (<) (get_data (h c)), pos = 0\<rparr>"

text \<open>\<open>operator*\<close>\<close>

definition AscendingOrder_deref :: "'a AscendingOrder \<Rightarrow> error + 'a" where
  "AscendingOrder_deref it =
     (if AscendingOrder.pos it \<ge> vec_size (AscendingOrder.sorted_vec it) then Inl out_of_range
      else Inr (AscendingOrder.sorted_vec it ! unat (AscendingOrder.pos it)))"

text \<open>\<open>operator++\<close>\<close>

definition AscendingOrder_inc :: "'a AscendingOrder \<Rightarrow> 'a AscendingOrder" where
  "AscendingOrder_inc it = it\<lparr>AscendingOrder.pos := AscendingOrder.pos it + 1\<rparr>"

definition AscendingOrder_eq :: "'a AscendingOrder \<Rightarrow> 'a AscendingOrder \<Rightarrow> bool" where
  "AscendingOrder_eq it other = (AscendingOrder.pos it = AscendingOrder.pos other)"

definition AscendingOrder_neq :: "'a AscendingOrder \<Rightarrow> 'a AscendingOrder \<Rightarrow> bool" where
  "AscendingOrder_neq it other = (\<not> AscendingOrder_eq it other)"

text \<open>\<open>begin()\<close> returns \<open>*this\<close>: a copy of the view, position included.\<close>

definition AscendingOrder_begin :: "'a AscendingOrder \<Rightarrow> 'a AscendingOrder" where
  "AscendingOrder_begin it = it"

definition AscendingOrder_end :: "'a AscendingOrder \<Rightarrow> 'a AscendingOrder" where
  "AscendingOrder_end this =
     (let it = this in it\<lparr>AscendingOrder.pos := vec_size (AscendingOrder.sorted_vec this)\<rparr>)"

text \<open>
  A traversal is the range-based \<open>for\<close> of the callers,
  \<open>for (auto x : view) out.push_back(x);\<close>, that is
  \<open>for (auto it = view.begin(), e = view.end(); it != e; ++it) out.push_back(*it);\<close>.
  An exception of \<open>operator*\<close> ends it.
\<close>

function AscendingOrder_loop ::
  "'a AscendingOrder \<Rightarrow> 'a AscendingOrder \<Rightarrow> 'a list \<Rightarrow> error + 'a list" where
  "AscendingOrder_loop it e out =
     (if AscendingOrder_neq it e then
        (case AscendingOrder_deref it of
           Inl err \<Rightarrow> Inl err
         | Inr x \<Rightarrow> AscendingOrder_loop (AscendingOrder_inc it) e (out @ [x]))
      else Inr out)"
  by pat_completeness auto
termination
  by (relation "measure (\<lambda>(it, e, out). unat (AscendingOrder.pos e - AscendingOrder.pos it))")
     (auto simp: AscendingOrder_neq_def AscendingOrder_eq_def AscendingOrder_inc_def
           intro: size_t_gap_less)

declare AscendingOrder_loop.simps [simp del]

definition AscendingOrder_traverse :: "'a AscendingOrder \<Rightarrow> error + 'a list" where
  "AscendingOrder_traverse v = AscendingOrder_loop (AscendingOrder_begin v) (AscendingOrder_end v) []"

section \<open>DescendingOrder\<close>

record 'a DescendingOrder =
  cont :: ref
  sorted_vec :: "'a list"
  pos :: size_t

definition DescendingOrder_ctor :: "('a::linorder) heap \<Rightarrow> ref \<Rightarrow> 'a DescendingOrder" where
  "DescendingOrder_ctor h c =
     \<lparr>DescendingOrder.cont = c, sorted_vec = std_sort std_greater (get_data (h c)), pos = 0\<rparr>"

definition DescendingOrder_deref :: "'a DescendingOrder \<Rightarrow> error + 'a" where
  "DescendingOrder_deref it =
     (if DescendingOrder.pos it \<ge> vec_size (DescendingOrder.sorted_vec it) then Inl out_of_range
      else Inr (DescendingOrder.sorted_vec it ! unat (DescendingOrder.pos it)))"

definition DescendingOrder_inc :: "'a DescendingOrder \<Rightarrow> 'a DescendingOrder" where
  "DescendingOrder_inc it = it\<lparr>DescendingOrder.pos := DescendingOrder.pos it + 1\<rparr>"

definition DescendingOrder_eq :: "'a DescendingOrder \<Rightarrow> 'a DescendingOrder \<Rightarrow> bool" where
  "DescendingOrder_eq it other = (DescendingOrder.pos it = DescendingOrder.pos other)"

definition DescendingOrder_neq :: "'a DescendingOrder \<Rightarrow> 'a DescendingOrder \<Rightarrow> bool" where
  "DescendingOrder_neq it other = (\<not> DescendingOrder_eq it other)"

definition DescendingOrder_begin :: "'a DescendingOrder \<Rightarrow> 'a DescendingOrder" where
  "DescendingOrder_begin it = it"

definition DescendingOrder_end :: "'a DescendingOrder \<Rightarrow> 'a DescendingOrder" where
  "DescendingOrder_end this = (let it = this in it\<lparr>DescendingOrder.pos := vec_size (DescendingOrder.sorted_vec this)\<rparr>)"

function DescendingOrder_loop ::
  "'a DescendingOrder \<Rightarrow> 'a DescendingOrder \<Rightarrow> 'a list \<Rightarrow> error + 'a list" where
  "DescendingOrder_loop it e out =
     (if DescendingOrder_neq it e then
        (case DescendingOrder_deref it of
           Inl err \<Rightarrow> Inl err
         | Inr x \<Rightarrow> DescendingOrder_loop (DescendingOrder_inc it) e (out @ [x]))
      else Inr out)"
  by pat_completeness auto
termination
  by (relation "measure (\<lambda>(it, e, out). unat (DescendingOrder.pos e - DescendingOrder.pos it))")
     (auto simp: DescendingOrder_neq_def DescendingOrder_eq_def DescendingOrder_inc_def
           intro: size_t_gap_less)

declare DescendingOrder_loop.simps [simp del]

definition DescendingOrder_traverse :: "'a DescendingOrder \<Rightarrow> error + 'a list" where
  "DescendingOrder_traverse v = DescendingOrder_loop (DescendingOrder_begin v) (DescendingOrder_end v) []"

section \<open>SideCrossOrder\<close>

record 'a SideCrossOrder =
  cont :: ref
  order_vec :: "'a list"
  pos :: size_t

text \<open>
  The loop of the constructor, on \<open>size_t\<close> indices. \<open>left \<le> right\<close> holds at both reads
  and \<open>right\<close> starts at the last index and never grows, so both reads are in range.
\<close>

function sidecross_loop :: "'a list \<Rightarrow> size_t \<Rightarrow> size_t \<Rightarrow> 'a list \<Rightarrow> 'a list" where
  "sidecross_loop sorted_v left right order =
     (if left \<le> right then
        sidecross_loop sorted_v (left + 1) (if right > 0 then right - 1 else right)
          (if left = right then order @ [sorted_v ! unat left]
           else order @ [sorted_v ! unat left] @ [sorted_v ! unat right])
      else order)"
  by pat_completeness auto
termination
proof (relation "measure (\<lambda>(sorted_v, left, right, order).
                   unat right + (if left \<le> right then 1 else 0))")
  show "wf (measure (\<lambda>(sorted_v :: 'a list, left :: size_t, right :: size_t, order :: 'a list).
                   unat right + (if left \<le> right then 1 else 0)))"
    by simp
next
  fix sorted_v order :: "'a list" and left right :: size_t
  assume le: "left \<le> right"
  show "((sorted_v, left + 1, if 0 < right then right - 1 else right,
          if left = right then order @ [sorted_v ! unat left]
          else order @ [sorted_v ! unat left] @ [sorted_v ! unat right]),
         (sorted_v, left, right, order))
        \<in> measure (\<lambda>(sorted_v, left, right, order).
                   unat right + (if left \<le> right then 1 else 0))"
  proof (cases "0 < right")
    case True
    then have "unat (right - 1) < unat right"
      by (intro size_t_pred_less) auto
    with le True show ?thesis by simp
  next
    case False
    then have "right = 0" using word_gt_0 [of right] by auto
    with le have "left = 0" by simp
    with \<open>right = 0\<close> show ?thesis by simp
  qed
qed

declare sidecross_loop.simps [simp del]

definition SideCrossOrder_ctor :: "('a::linorder) heap \<Rightarrow> ref \<Rightarrow> 'a SideCrossOrder" where
  "SideCrossOrder_ctor h c =
     (let sorted_v = std_sort (<) (get_data (h c)) in
      if sorted_v = [] then \<lparr>SideCrossOrder.cont = c, order_vec = [], pos = 0\<rparr>
      else \<lparr>SideCrossOrder.cont = c,
            order_vec = sidecross_loop sorted_v 0 (vec_size sorted_v - 1) [],
            pos = 0\<rparr>)"

definition SideCrossOrder_deref :: "'a SideCrossOrder \<Rightarrow> error + 'a" where
  "SideCrossOrder_deref it =
     (if SideCrossOrder.pos it \<ge> vec_size (SideCrossOrder.order_vec it) then Inl out_of_range
      else Inr (SideCrossOrder.order_vec it ! unat (SideCrossOrder.pos it)))"

definition SideCrossOrder_inc :: "'a SideCrossOrder \<Rightarrow> 'a SideCrossOrder" where
  "SideCrossOrder_inc it = it\<lparr>SideCrossOrder.pos := SideCrossOrder.pos it + 1\<rparr>"

definition SideCrossOrder_eq :: "'a SideCrossOrder \<Rightarrow> 'a SideCrossOrder \<Rightarrow> bool" where
  "SideCrossOrder_eq it other = (SideCrossOrder.pos it = SideCrossOrder.pos other)"

definition SideCrossOrder_neq :: "'a SideCrossOrder \<Rightarrow> 'a SideCrossOrder \<Rightarrow> bool" where
  "SideCrossOrder_neq it other = (\<not> SideCrossOrder_eq it other)"

definition SideCrossOrder_begin :: "'a SideCrossOrder \<Rightarrow> 'a SideCrossOrder" where
  "SideCrossOrder_begin it = it"

definition SideCrossOrder_end :: "'a SideCrossOrder \<Rightarrow> 'a SideCrossOrder" where
  "SideCrossOrder_end this = (let it = this in it\<lparr>SideCrossOrder.pos := vec_size (SideCrossOrder.order_vec this)\<rparr>)"

function SideCrossOrder_loop ::
  "'a SideCrossOrder \<Rightarrow> 'a SideCrossOrder \<Rightarrow> 'a list \<Rightarrow> error + 'a list" where
  "SideCrossOrder_loop it e out =
     (if SideCrossOrder_neq it e then
        (case SideCrossOrder_deref it of
           Inl err \<Rightarrow> Inl err
         | Inr x \<Rightarrow> SideCrossOrder_loop (SideCrossOrder_inc it) e (out @ [x]))
      else Inr out)"
  by pat_completeness auto
termination
  by (relation "measure (\<lambda>(it, e, out). unat (SideCrossOrder.pos e - SideCrossOrder.pos it))")
     (auto simp: SideCrossOrder_neq_def SideCrossOrder_eq_def SideCrossOrder_inc_def
           intro: size_t_gap_less)

declare SideCrossOrder_loop.simps [simp del]

definition SideCrossOrder_traverse :: "'a SideCrossOrder \<Rightarrow> error + 'a list" where
  "SideCrossOrder_traverse v = SideCrossOrder_loop (SideCrossOrder_begin v) (SideCrossOrder_end v) []"

section \<open>ReverseOrder\<close>

text \<open>
  \<open>ReverseOrder\<close> and \<open>Order\<close> keep no vector of their own: \<open>operator*\<close> and \<open>end()\<close> read
  \<open>cont.get_data()\<close>, the container as the heap holds it when they are called.
\<close>

record ReverseOrder =
  cont :: ref
  pos :: size_t

definition ReverseOrder_ctor :: "'a heap \<Rightarrow> ref \<Rightarrow> ReverseOrder" where
  "ReverseOrder_ctor h c = \<lparr>ReverseOrder.cont = c, pos = 0\<rparr>"

definition ReverseOrder_deref :: "'a heap \<Rightarrow> ReverseOrder \<Rightarrow> error + 'a" where
  "ReverseOrder_deref h it =
     (let data = get_data (h (ReverseOrder.cont it)) in
      if ReverseOrder.pos it \<ge> vec_size data then Inl out_of_range
      else Inr (data ! unat (vec_size data - 1 - ReverseOrder.pos it)))"

definition ReverseOrder_inc :: "ReverseOrder \<Rightarrow> ReverseOrder" where
  "ReverseOrder_inc it = it\<lparr>ReverseOrder.pos := ReverseOrder.pos it + 1\<rparr>"

definition ReverseOrder_eq :: "ReverseOrder \<Rightarrow> ReverseOrder \<Rightarrow> bool" where
  "ReverseOrder_eq it other = (ReverseOrder.pos it = ReverseOrder.pos other)"

definition ReverseOrder_neq :: "ReverseOrder \<Rightarrow> ReverseOrder \<Rightarrow> bool" where
  "ReverseOrder_neq it other = (\<not> ReverseOrder_eq it other)"

definition ReverseOrder_begin :: "ReverseOrder \<Rightarrow> ReverseOrder" where
  "ReverseOrder_begin it = it"

definition ReverseOrder_end :: "'a heap \<Rightarrow> ReverseOrder \<Rightarrow> ReverseOrder" where
  "ReverseOrder_end h this =
     (let it = this in it\<lparr>ReverseOrder.pos := vec_size (get_data (h (ReverseOrder.cont this)))\<rparr>)"

function ReverseOrder_loop ::
  "'a heap \<Rightarrow> ReverseOrder \<Rightarrow> ReverseOrder \<Rightarrow> 'a list \<Rightarrow> error + 'a list" where
  "ReverseOrder_loop h it e out =
     (if ReverseOrder_neq it e then
        (case ReverseOrder_deref h it of
           Inl err \<Rightarrow> Inl err
         | Inr x \<Rightarrow> ReverseOrder_loop h (ReverseOrder_inc it) e (out @ [x]))
      else Inr out)"
  by pat_completeness auto
termination
  by (relation "measure (\<lambda>(h, it, e, out). unat (ReverseOrder.pos e - ReverseOrder.pos it))")
     (auto simp: ReverseOrder_neq_def ReverseOrder_eq_def ReverseOrder_inc_def
           intro: size_t_gap_less)

declare ReverseOrder_loop.simps [simp del]

definition ReverseOrder_traverse :: "'a heap \<Rightarrow> ReverseOrder \<Rightarrow> error + 'a list" where
  "ReverseOrder_traverse h v = ReverseOrder_loop h (ReverseOrder_begin v) (ReverseOrder_end h v) []"

section \<open>Order\<close>

record Order =
  cont :: ref
  pos :: size_t

definition Order_ctor :: "'a heap \<Rightarrow> ref \<Rightarrow> Order" where
  "Order_ctor h c = \<lparr>Order.cont = c, pos = 0\<rparr>"

definition Order_deref :: "'a heap \<Rightarrow> Order \<Rightarrow> error + 'a" where
  "Order_deref h it =
     (let data = get_data (h (Order.cont it)) in
      if Order.pos it \<ge> vec_size data then Inl out_of_range
      else Inr (data ! unat (Order.pos it)))"

definition Order_inc :: "Order \<Rightarrow> Order" where
  "Order_inc it = it\<lparr>Order.pos := Order.pos it + 1\<rparr>"

definition Order_eq :: "Order \<Rightarrow> Order \<Rightarrow> bool" where
  "Order_eq it other = (Order.pos it = Order.pos other)"

definition Order_neq :: "Order \<Rightarrow> Order \<Rightarrow> bool" where
  "Order_neq it other = (\<not> Order_eq it other)"

definition Order_begin :: "Order \<Rightarrow> Order" where
  "Order_begin it = it"

definition Order_end :: "'a heap \<Rightarrow> Order \<Rightarrow> Order" where
  "Order_end h this =
     (let it = this in it\<lparr>Order.pos := vec_size (get_data (h (Order.cont this)))\<rparr>)"

function Order_loop ::
  "'a heap \<Rightarrow> Order \<Rightarrow> Order \<Rightarrow> 'a list \<Rightarrow> error + 'a list" where
  "Order_loop h it e out =
     (if Order_neq it e then
        (case Order_deref h it of
           Inl err \<Rightarrow> Inl err
         | Inr x \<Rightarrow> Order_loop h (Order_inc it) e (out @ [x]))
      else Inr out)"
  by pat_completeness auto
termination
  by (relation "measure (\<lambda>(h, it, e, out). unat (Order.pos e - Order.pos it))")
     (auto simp: Order_neq_def Order_eq_def Order_inc_def
           intro: size_t_gap_less)

declare Order_loop.simps [simp del]

definition Order_traverse :: "'a heap \<Rightarrow> Order \<Rightarrow> error + 'a list" where
  "Order_traverse h v = Order_loop h (Order_begin v) (Order_end h v) []"

section \<open>MiddleOutOrder\<close>

record 'a MiddleOutOrder =
  cont :: ref
  order_vec :: "'a list"
  pos :: size_t

text \<open>
  The constructor computes with \<open>int\<close>, 32 bits wide. \<open>static_cast<int>\<close> of a \<open>size_t\<close>
  keeps the low 32 bits and reads them as two's complement. An \<open>int\<close> is modelled by a HOL
  integer, and an arithmetic result outside the range of \<open>int\<close> is undefined behaviour.
\<close>

definition INT_MIN :: int where
  "INT_MIN = - (2 ^ 31)"

definition INT_MAX :: int where
  "INT_MAX = 2 ^ 31 - 1"

definition static_cast_int :: "size_t \<Rightarrow> int" where
  "static_cast_int n =
     (let k = uint n mod 2 ^ 32 in if k < 2 ^ 31 then k else k - 2 ^ 32)"

text \<open>
  \<open>data[i]\<close> with an \<open>int\<close> index: the index is converted to \<open>size_t\<close>, so a negative one
  is far beyond the end of the vector; reading beyond the end is undefined behaviour.
\<close>

definition vec_read :: "'a list \<Rightarrow> int \<Rightarrow> error + 'a" where
  "vec_read xs i =
     (if 0 \<le> i \<and> nat i < length xs then Inr (xs ! nat i) else Inl undefined_behaviour)"

text \<open>\<open>if (left >= 0) order.push_back(data[left--]);\<close>\<close>

definition push_left :: "'a list \<Rightarrow> int \<Rightarrow> 'a list \<Rightarrow> error + 'a list \<times> int" where
  "push_left xs left order =
     (if left \<ge> 0 then
        (case vec_read xs left of
           Inl err \<Rightarrow> Inl err
         | Inr x \<Rightarrow> Inr (order @ [x], left - 1))
      else Inr (order, left))"

text \<open>\<open>if (right < static_cast<int>(data.size())) order.push_back(data[right++]);\<close>\<close>

definition push_right :: "'a list \<Rightarrow> int \<Rightarrow> 'a list \<Rightarrow> error + 'a list \<times> int" where
  "push_right xs right order =
     (if right < static_cast_int (vec_size xs) then
        (case vec_read xs right of
           Inl err \<Rightarrow> Inl err
         | Inr x \<Rightarrow> Inr (order @ [x], right + 1))
      else Inr (order, right))"

text \<open>
  The loop. \<open>left--\<close> runs only on \<open>left \<ge> 0\<close> and \<open>right++\<close> only below an \<open>int\<close>, so
  neither leaves the range of \<open>int\<close>.
\<close>

function middle_out_loop :: "'a list \<Rightarrow> int \<Rightarrow> int \<Rightarrow> 'a list \<Rightarrow> error + 'a list" where
  "middle_out_loop xs left right order =
     (if left \<ge> 0 \<or> right < static_cast_int (vec_size xs) then
        (case push_left xs left order of
           Inl err \<Rightarrow> Inl err
         | Inr (order1, left1) \<Rightarrow>
             (case push_right xs right order1 of
                Inl err \<Rightarrow> Inl err
              | Inr (order2, right1) \<Rightarrow> middle_out_loop xs left1 right1 order2))
      else Inr order)"
  by pat_completeness auto
termination
proof (relation "measure (\<lambda>(xs, left, right, order).
                   nat (left + 1) + nat (static_cast_int (vec_size xs) - right))")
  show "wf (measure (\<lambda>(xs :: 'a list, left :: int, right :: int, order :: 'a list).
                   nat (left + 1) + nat (static_cast_int (vec_size xs) - right)))"
    by simp
next
  fix xs order order1 order2 :: "'a list" and left right left1 right1 :: int
    and p1 p2 :: "'a list \<times> int"
  assume c: "0 \<le> left \<or> right < static_cast_int (vec_size xs)"
    and l: "push_left xs left order = Inr p1" "(order1, left1) = p1"
    and r: "push_right xs right order1 = Inr p2" "(order2, right1) = p2"
  from l have l': "left1 = (if 0 \<le> left then left - 1 else left)"
    by (auto simp: push_left_def split: if_splits sum.splits)
  from r have r': "right1 = (if right < static_cast_int (vec_size xs) then right + 1 else right)"
    by (auto simp: push_right_def split: if_splits sum.splits)
  from c l' r'
  show "((xs, left1, right1, order2), (xs, left, right, order))
        \<in> measure (\<lambda>(xs, left, right, order).
                   nat (left + 1) + nat (static_cast_int (vec_size xs) - right))"
    by (auto split: if_splits)
qed

declare middle_out_loop.simps [simp del]

text \<open>
  The constructor. \<open>mid\<close> is below the size of a non-empty vector, so \<open>data[mid]\<close> is in
  range.
\<close>

definition MiddleOutOrder_ctor :: "'a heap \<Rightarrow> ref \<Rightarrow> error + 'a MiddleOutOrder" where
  "MiddleOutOrder_ctor h c =
     (let data = get_data (h c) in
      if data = [] then Inr \<lparr>MiddleOutOrder.cont = c, order_vec = [], pos = 0\<rparr>
      else
        let mid = vec_size data div 2;
            m = static_cast_int mid
        in if m - 1 < INT_MIN \<or> INT_MAX < m + 1 then Inl undefined_behaviour
           else
             (case middle_out_loop data (m - 1) (m + 1) [data ! unat mid] of
                Inl err \<Rightarrow> Inl err
              | Inr order \<Rightarrow> Inr \<lparr>MiddleOutOrder.cont = c, order_vec = order, pos = 0\<rparr>))"

definition MiddleOutOrder_deref :: "'a MiddleOutOrder \<Rightarrow> error + 'a" where
  "MiddleOutOrder_deref it =
     (if MiddleOutOrder.pos it \<ge> vec_size (MiddleOutOrder.order_vec it) then Inl out_of_range
      else Inr (MiddleOutOrder.order_vec it ! unat (MiddleOutOrder.pos it)))"

definition MiddleOutOrder_inc :: "'a MiddleOutOrder \<Rightarrow> 'a MiddleOutOrder" where
  "MiddleOutOrder_inc it = it\<lparr>MiddleOutOrder.pos := MiddleOutOrder.pos it + 1\<rparr>"

definition MiddleOutOrder_eq :: "'a MiddleOutOrder \<Rightarrow> 'a MiddleOutOrder \<Rightarrow> bool" where
  "MiddleOutOrder_eq it other = (MiddleOutOrder.pos it = MiddleOutOrder.pos other)"

definition MiddleOutOrder_neq :: "'a MiddleOutOrder \<Rightarrow> 'a MiddleOutOrder \<Rightarrow> bool" where
  "MiddleOutOrder_neq it other = (\<not> MiddleOutOrder_eq it other)"

definition MiddleOutOrder_begin :: "'a MiddleOutOrder \<Rightarrow> 'a MiddleOutOrder" where
  "MiddleOutOrder_begin it = it"

definition MiddleOutOrder_end :: "'a MiddleOutOrder \<Rightarrow> 'a MiddleOutOrder" where
  "MiddleOutOrder_end this = (let it = this in it\<lparr>MiddleOutOrder.pos := vec_size (MiddleOutOrder.order_vec this)\<rparr>)"

function MiddleOutOrder_loop ::
  "'a MiddleOutOrder \<Rightarrow> 'a MiddleOutOrder \<Rightarrow> 'a list \<Rightarrow> error + 'a list" where
  "MiddleOutOrder_loop it e out =
     (if MiddleOutOrder_neq it e then
        (case MiddleOutOrder_deref it of
           Inl err \<Rightarrow> Inl err
         | Inr x \<Rightarrow> MiddleOutOrder_loop (MiddleOutOrder_inc it) e (out @ [x]))
      else Inr out)"
  by pat_completeness auto
termination
  by (relation "measure (\<lambda>(it, e, out). unat (MiddleOutOrder.pos e - MiddleOutOrder.pos it))")
     (auto simp: MiddleOutOrder_neq_def MiddleOutOrder_eq_def MiddleOutOrder_inc_def
           intro: size_t_gap_less)

declare MiddleOutOrder_loop.simps [simp del]

definition MiddleOutOrder_traverse :: "'a MiddleOutOrder \<Rightarrow> error + 'a list" where
  "MiddleOutOrder_traverse v = MiddleOutOrder_loop (MiddleOutOrder_begin v) (MiddleOutOrder_end v) []"

section \<open>Accessors of the views\<close>

definition ascending_order :: "('a::linorder) heap \<Rightarrow> ref \<Rightarrow> 'a AscendingOrder" where
  "ascending_order h this = AscendingOrder_ctor h this"

definition descending_order :: "('a::linorder) heap \<Rightarrow> ref \<Rightarrow> 'a DescendingOrder" where
  "descending_order h this = DescendingOrder_ctor h this"

definition sidecross_order :: "('a::linorder) heap \<Rightarrow> ref \<Rightarrow> 'a SideCrossOrder" where
  "sidecross_order h this = SideCrossOrder_ctor h this"

definition reverse_order :: "'a heap \<Rightarrow> ref \<Rightarrow> ReverseOrder" where
  "reverse_order h this = ReverseOrder_ctor h this"

definition order :: "'a heap \<Rightarrow> ref \<Rightarrow> Order" where
  "order h this = Order_ctor h this"

definition middle_out_order :: "'a heap \<Rightarrow> ref \<Rightarrow> error + 'a MiddleOutOrder" where
  "middle_out_order h this = MiddleOutOrder_ctor h this"

section \<open>The orders as the specification words them\<close>

text \<open>
  Side-cross, in the specification's words: of a sequence sorted ascending, emit the lowest
  unconsumed and the highest unconsumed element in turn, moving inward; a single element
  left in the middle is emitted once.
\<close>

function side_cross_spec :: "'a list \<Rightarrow> 'a list" where
  "side_cross_spec [] = []"
| "side_cross_spec [x] = [x]"
| "side_cross_spec (x # y # ys) = x # last (y # ys) # side_cross_spec (butlast (y # ys))"
  by pat_completeness auto
termination
  by (relation "measure length") auto

text \<open>
  Middle-out, in the specification's words: emit the element at index \<open>size / 2\<close> first,
  then the next element to its left and the next to its right in turn; once one side is
  exhausted, go on with the other.
\<close>

fun alternate_spec :: "'a list \<Rightarrow> 'a list \<Rightarrow> 'a list" where
  "alternate_spec [] rs = rs"
| "alternate_spec (l # ls) [] = l # ls"
| "alternate_spec (l # ls) (r # rs) = l # r # alternate_spec ls rs"

definition middle_out_spec :: "'a list \<Rightarrow> 'a list" where
  "middle_out_spec xs =
     (if xs = [] then []
      else let mid = length xs div 2
           in xs ! mid # alternate_spec (rev (take mid xs)) (drop (Suc mid) xs))"

section \<open>Facts\<close>

subsection \<open>Facts about the backing store\<close>

lemma std_find_le: "std_find xs v \<le> length xs"
  by (induction xs) auto

lemma std_find_end_iff: "std_find xs v = length xs \<longleftrightarrow> v \<notin> set xs"
proof (induction xs)
  case Nil
  then show ?case by simp
next
  case (Cons x xs)
  have "std_find xs v \<le> length xs" by (rule std_find_le)
  with Cons show ?case by auto
qed

lemma std_find_prefix: "v \<notin> set (take (std_find xs v) xs)"
  by (induction xs) auto

lemma std_find_hit: "std_find xs v < length xs \<Longrightarrow> xs ! std_find xs v = v"
  by (induction xs) auto

text \<open>
  \<open>std::remove\<close> followed by \<open>erase\<close> keeps exactly the slots that differ from the value, in
  their order. The loop invariant: the slots below the write position are the survivors of
  the slots already read, and the slots from the read position on are untouched.
\<close>

lemma remove_loop_inv:
  "val = Value v \<Longrightarrow> result < first \<Longrightarrow> first \<le> length xs \<Longrightarrow>
   erase_to_end (remove_loop val xs result first)
     = take result xs @ filter (\<lambda>x. \<not> (x = v)) (drop first xs)"
proof (induction val xs result first rule: remove_loop.induct)
  case (1 val xs result first)
  note val = "1.prems"(1)
  show ?case
  proof (cases "first < length xs")
    case False
    with "1.prems" show ?thesis by (subst remove_loop.simps) (simp add: erase_to_end_def)
  next
    case True
    note lt = True
    have split: "drop first xs = xs ! first # drop (Suc first) xs"
      using lt by (simp add: Cons_nth_drop_Suc)
    show ?thesis
    proof (cases "xs ! first = v")
      case True
      then have eq: "\<not> \<not> (xs ! first = read_ref xs val)" using val by simp
      have "erase_to_end (remove_loop val xs result first)
              = erase_to_end (remove_loop val xs result (Suc first))"
        using lt eq by (subst remove_loop.simps) simp
      also have "\<dots> = take result xs @ filter (\<lambda>x. \<not> (x = v)) (drop (Suc first) xs)"
        using "1.IH"(2) [OF lt eq val] "1.prems" lt by simp
      finally show ?thesis using True split by simp
    next
      case False
      then have ne: "\<not> (xs ! first = read_ref xs val)" using val by simp
      let ?ys = "xs[result := xs ! first]"
      have "erase_to_end (remove_loop val xs result first)
              = erase_to_end (remove_loop val ?ys (Suc result) (Suc first))"
        using lt ne by (subst remove_loop.simps) simp
      also have "\<dots> = take (Suc result) ?ys @ filter (\<lambda>x. \<not> (x = v)) (drop (Suc first) ?ys)"
        using "1.IH"(1) [OF lt ne val] "1.prems" lt by simp
      also have "take (Suc result) ?ys = take result xs @ [xs ! first]"
        using "1.prems" lt by (simp add: take_Suc_conv_app_nth)
      also have "drop (Suc first) ?ys = drop (Suc first) xs"
        using "1.prems" by simp
      finally show ?thesis using False split by simp
    qed
  qed
qed

lemma erase_std_remove: "erase_to_end (std_remove xs (Value v)) = filter (\<lambda>x. \<not> (x = v)) xs"
proof (cases "std_find xs v = length xs")
  case True
  then have "v \<notin> set xs" by (simp add: std_find_end_iff)
  then have "filter (\<lambda>x. \<not> (x = v)) xs = xs" by (auto simp: filter_id_conv)
  with True show ?thesis by (simp add: std_remove_def erase_to_end_def)
next
  case False
  let ?i = "std_find xs v"
  have lt: "?i < length xs" using False std_find_le [of xs v] by simp
  have pre: "filter (\<lambda>x. \<not> (x = v)) (take ?i xs) = take ?i xs"
    using std_find_prefix [of v xs] by (auto simp: filter_id_conv)
  have dec: "xs = take ?i xs @ xs ! ?i # drop (Suc ?i) xs"
    using lt by (rule id_take_nth_drop)
  have "filter (\<lambda>x. \<not> (x = v)) xs
          = filter (\<lambda>x. \<not> (x = v)) (take ?i xs @ xs ! ?i # drop (Suc ?i) xs)"
    using dec by simp
  also have "\<dots> = take ?i xs @ filter (\<lambda>x. \<not> (x = v)) (drop (Suc ?i) xs)"
    using pre std_find_hit [OF lt] by simp
  finally have rhs: "filter (\<lambda>x. \<not> (x = v)) xs
     = take ?i xs @ filter (\<lambda>x. \<not> (x = v)) (drop (Suc ?i) xs)" .
  have "erase_to_end (std_remove xs (Value v)) = erase_to_end (remove_loop (Value v) xs ?i (Suc ?i))"
    using False by (simp add: std_remove_def Let_def)
  also have "\<dots> = take ?i xs @ filter (\<lambda>x. \<not> (x = v)) (drop (Suc ?i) xs)"
    using lt by (simp add: remove_loop_inv [OF refl])
  finally show ?thesis using rhs by simp
qed

lemma length_filter_neq_count:
  "length (filter (\<lambda>x. \<not> (x = v)) xs) + count_list xs v = length xs"
  by (induction xs) auto

lemma count_list_pos_iff: "1 \<le> count_list xs v \<longleftrightarrow> v \<in> set xs"
  using count_list_0_iff [of xs v] by (cases "count_list xs v") auto

subsection \<open>Facts about sorting\<close>

lemma mset_insert_by: "mset (insert_by lt x xs) = add_mset x (mset xs)"
  by (induction xs) auto

lemma mset_std_sort: "mset (std_sort lt xs) = mset xs"
  by (induction xs) (auto simp: std_sort_def mset_insert_by)

lemma set_insert_by: "set (insert_by lt x xs) = insert x (set xs)"
  by (induction xs) auto

lemma sorted_insert_by_less:
  "sorted xs \<Longrightarrow> sorted (insert_by (<) (x :: 'a :: linorder) xs)"
  by (induction xs) (auto simp: set_insert_by)

lemma sorted_std_sort_less: "sorted (std_sort (<) (xs :: 'a :: linorder list))"
  by (induction xs) (auto simp: std_sort_def sorted_insert_by_less)

lemma sorted_insert_by_greater:
  "sorted_wrt (\<ge>) xs \<Longrightarrow> sorted_wrt (\<ge>) (insert_by std_greater (x :: 'a :: linorder) xs)"
  by (induction xs) (auto simp: set_insert_by std_greater_def)

lemma sorted_std_sort_greater: "sorted_wrt (\<ge>) (std_sort std_greater (xs :: 'a :: linorder list))"
  by (induction xs) (auto simp: std_sort_def sorted_insert_by_greater)

lemma std_sort_unique:
  "sorted ys \<Longrightarrow> mset ys = mset xs \<Longrightarrow> ys = std_sort (<) (xs :: 'a :: linorder list)"
proof -
  assume s: "sorted ys" and m: "mset ys = mset xs"
  have "sort xs = ys" using m s by (rule properties_for_sort)
  moreover have "sort xs = std_sort (<) xs"
    by (rule properties_for_sort) (simp_all add: mset_std_sort sorted_std_sort_less)
  ultimately show ?thesis by simp
qed

lemma std_sort_greater_unique:
  "sorted_wrt (\<ge>) ys \<Longrightarrow> mset ys = mset xs \<Longrightarrow> ys = std_sort std_greater (xs :: 'a :: linorder list)"
proof -
  assume s: "sorted_wrt (\<ge>) ys" and m: "mset ys = mset xs"
  have a: "sorted (rev ys)" using s by (simp add: sorted_wrt_rev)
  have b: "sorted (rev (std_sort std_greater xs))"
    using sorted_std_sort_greater [of xs] by (simp add: sorted_wrt_rev)
  have "sort xs = rev ys" using m a by (intro properties_for_sort) simp_all
  moreover have "sort xs = rev (std_sort std_greater xs)"
    using b by (intro properties_for_sort) (simp_all add: mset_std_sort)
  ultimately show ?thesis by simp
qed

lemma std_sort_less_eq_sort: "std_sort (<) xs = sort (xs :: 'a :: linorder list)"
  by (rule std_sort_unique [symmetric]) simp_all

lemma length_std_sort: "length (std_sort lt xs) = length xs"
  using mset_std_sort [of lt xs] by (metis size_mset)

subsection \<open>Facts about traversals\<close>

text \<open>
  A vector holds fewer than \<open>2^64\<close> elements. On such a vector the loop of a traversal,
  started at a position within the vector and run to the end position, emits the slots
  from that position on and ends without an exception.
\<close>

lemma unat_vec_size: "length xs < 2 ^ 64 \<Longrightarrow> unat (vec_size xs) = length xs"
  by (simp add: vec_size_def unat_of_nat)

lemma size_t_less_Suc:
  "(p :: size_t) < e \<Longrightarrow> unat (p + 1) = Suc (unat p)"
proof -
  assume "p < e"
  then have "unat p < unat e" by (simp add: word_less_nat_alt)
  moreover have "unat e < 2 ^ 64" using unsigned_less [of e] by simp
  ultimately have "unat p + unat (1 :: size_t) < 2 ^ LENGTH(64)" by simp
  then have "unat (p + 1) = unat p + unat (1 :: size_t)" by (simp only: unat_add_lem)
  then show ?thesis by simp
qed

lemma AscendingOrder_loop_drop:
  assumes "length (AscendingOrder.sorted_vec it) < 2 ^ 64"
    and "unat (AscendingOrder.pos it) \<le> length (AscendingOrder.sorted_vec it)"
    and "AscendingOrder.pos e = vec_size (AscendingOrder.sorted_vec it)"
  shows "AscendingOrder_loop it e out
           = Inr (out @ drop (unat (AscendingOrder.pos it)) (AscendingOrder.sorted_vec it))"
  using assms
proof (induction it e out rule: AscendingOrder_loop.induct)
  case (1 it e out)
  let ?xs = "AscendingOrder.sorted_vec it" and ?p = "AscendingOrder.pos it"
  have ue: "unat (AscendingOrder.pos e) = length ?xs"
    using "1.prems" by (simp add: unat_vec_size)
  show ?case
  proof (cases "AscendingOrder_neq it e")
    case False
    then have "?p = AscendingOrder.pos e"
      by (simp add: AscendingOrder_neq_def AscendingOrder_eq_def)
    with ue have "unat ?p = length ?xs" by simp
    with False show ?thesis by (subst AscendingOrder_loop.simps) simp
  next
    case True
    then have ne: "?p \<noteq> AscendingOrder.pos e"
      by (simp add: AscendingOrder_neq_def AscendingOrder_eq_def)
    with ue "1.prems"(2) have lt: "unat ?p < length ?xs"
      by (metis le_neq_implies_less word_unat_eq_iff)
    then have wlt: "?p < vec_size ?xs"
      using ue "1.prems"(3) by (simp add: word_less_nat_alt)
    then have d: "AscendingOrder_deref it = Inr (?xs ! unat ?p)"
      by (simp add: AscendingOrder_deref_def not_le [symmetric])
    have suc: "unat (?p + 1) = Suc (unat ?p)" using wlt by (rule size_t_less_Suc)
    have "AscendingOrder_loop it e out
            = AscendingOrder_loop (AscendingOrder_inc it) e (out @ [?xs ! unat ?p])"
      using True d by (subst AscendingOrder_loop.simps) simp
    also have "\<dots> = Inr ((out @ [?xs ! unat ?p]) @ drop (Suc (unat ?p)) ?xs)"
      using "1.IH" [OF True d] "1.prems" lt suc by (simp add: AscendingOrder_inc_def)
    finally show ?thesis using lt by (simp add: Cons_nth_drop_Suc)
  qed
qed

lemma AscendingOrder_traverse_all:
  "length (AscendingOrder.sorted_vec v) < 2 ^ 64 \<Longrightarrow> AscendingOrder.pos v = 0 \<Longrightarrow>
   AscendingOrder_traverse v = Inr (AscendingOrder.sorted_vec v)"
  by (simp add: AscendingOrder_traverse_def AscendingOrder_begin_def AscendingOrder_end_def
      AscendingOrder_loop_drop)

lemma DescendingOrder_loop_drop:
  assumes "length (DescendingOrder.sorted_vec it) < 2 ^ 64"
    and "unat (DescendingOrder.pos it) \<le> length (DescendingOrder.sorted_vec it)"
    and "DescendingOrder.pos e = vec_size (DescendingOrder.sorted_vec it)"
  shows "DescendingOrder_loop it e out
           = Inr (out @ drop (unat (DescendingOrder.pos it)) (DescendingOrder.sorted_vec it))"
  using assms
proof (induction it e out rule: DescendingOrder_loop.induct)
  case (1 it e out)
  let ?xs = "DescendingOrder.sorted_vec it" and ?p = "DescendingOrder.pos it"
  have ue: "unat (DescendingOrder.pos e) = length ?xs"
    using "1.prems" by (simp add: unat_vec_size)
  show ?case
  proof (cases "DescendingOrder_neq it e")
    case False
    then have "?p = DescendingOrder.pos e"
      by (simp add: DescendingOrder_neq_def DescendingOrder_eq_def)
    with ue have "unat ?p = length ?xs" by simp
    with False show ?thesis by (subst DescendingOrder_loop.simps) simp
  next
    case True
    then have ne: "?p \<noteq> DescendingOrder.pos e"
      by (simp add: DescendingOrder_neq_def DescendingOrder_eq_def)
    with ue "1.prems"(2) have lt: "unat ?p < length ?xs"
      by (metis le_neq_implies_less word_unat_eq_iff)
    then have wlt: "?p < vec_size ?xs"
      using ue "1.prems"(3) by (simp add: word_less_nat_alt)
    then have d: "DescendingOrder_deref it = Inr (?xs ! unat ?p)"
      by (simp add: DescendingOrder_deref_def not_le [symmetric])
    have suc: "unat (?p + 1) = Suc (unat ?p)" using wlt by (rule size_t_less_Suc)
    have "DescendingOrder_loop it e out
            = DescendingOrder_loop (DescendingOrder_inc it) e (out @ [?xs ! unat ?p])"
      using True d by (subst DescendingOrder_loop.simps) simp
    also have "\<dots> = Inr ((out @ [?xs ! unat ?p]) @ drop (Suc (unat ?p)) ?xs)"
      using "1.IH" [OF True d] "1.prems" lt suc by (simp add: DescendingOrder_inc_def)
    finally show ?thesis using lt by (simp add: Cons_nth_drop_Suc)
  qed
qed

lemma DescendingOrder_traverse_all:
  "length (DescendingOrder.sorted_vec v) < 2 ^ 64 \<Longrightarrow> DescendingOrder.pos v = 0 \<Longrightarrow>
   DescendingOrder_traverse v = Inr (DescendingOrder.sorted_vec v)"
  by (simp add: DescendingOrder_traverse_def DescendingOrder_begin_def DescendingOrder_end_def
      DescendingOrder_loop_drop)

lemma SideCrossOrder_loop_drop:
  assumes "length (SideCrossOrder.order_vec it) < 2 ^ 64"
    and "unat (SideCrossOrder.pos it) \<le> length (SideCrossOrder.order_vec it)"
    and "SideCrossOrder.pos e = vec_size (SideCrossOrder.order_vec it)"
  shows "SideCrossOrder_loop it e out
           = Inr (out @ drop (unat (SideCrossOrder.pos it)) (SideCrossOrder.order_vec it))"
  using assms
proof (induction it e out rule: SideCrossOrder_loop.induct)
  case (1 it e out)
  let ?xs = "SideCrossOrder.order_vec it" and ?p = "SideCrossOrder.pos it"
  have ue: "unat (SideCrossOrder.pos e) = length ?xs"
    using "1.prems" by (simp add: unat_vec_size)
  show ?case
  proof (cases "SideCrossOrder_neq it e")
    case False
    then have "?p = SideCrossOrder.pos e"
      by (simp add: SideCrossOrder_neq_def SideCrossOrder_eq_def)
    with ue have "unat ?p = length ?xs" by simp
    with False show ?thesis by (subst SideCrossOrder_loop.simps) simp
  next
    case True
    then have ne: "?p \<noteq> SideCrossOrder.pos e"
      by (simp add: SideCrossOrder_neq_def SideCrossOrder_eq_def)
    with ue "1.prems"(2) have lt: "unat ?p < length ?xs"
      by (metis le_neq_implies_less word_unat_eq_iff)
    then have wlt: "?p < vec_size ?xs"
      using ue "1.prems"(3) by (simp add: word_less_nat_alt)
    then have d: "SideCrossOrder_deref it = Inr (?xs ! unat ?p)"
      by (simp add: SideCrossOrder_deref_def not_le [symmetric])
    have suc: "unat (?p + 1) = Suc (unat ?p)" using wlt by (rule size_t_less_Suc)
    have "SideCrossOrder_loop it e out
            = SideCrossOrder_loop (SideCrossOrder_inc it) e (out @ [?xs ! unat ?p])"
      using True d by (subst SideCrossOrder_loop.simps) simp
    also have "\<dots> = Inr ((out @ [?xs ! unat ?p]) @ drop (Suc (unat ?p)) ?xs)"
      using "1.IH" [OF True d] "1.prems" lt suc by (simp add: SideCrossOrder_inc_def)
    finally show ?thesis using lt by (simp add: Cons_nth_drop_Suc)
  qed
qed

lemma SideCrossOrder_traverse_all:
  "length (SideCrossOrder.order_vec v) < 2 ^ 64 \<Longrightarrow> SideCrossOrder.pos v = 0 \<Longrightarrow>
   SideCrossOrder_traverse v = Inr (SideCrossOrder.order_vec v)"
  by (simp add: SideCrossOrder_traverse_def SideCrossOrder_begin_def SideCrossOrder_end_def
      SideCrossOrder_loop_drop)

lemma MiddleOutOrder_loop_drop:
  assumes "length (MiddleOutOrder.order_vec it) < 2 ^ 64"
    and "unat (MiddleOutOrder.pos it) \<le> length (MiddleOutOrder.order_vec it)"
    and "MiddleOutOrder.pos e = vec_size (MiddleOutOrder.order_vec it)"
  shows "MiddleOutOrder_loop it e out
           = Inr (out @ drop (unat (MiddleOutOrder.pos it)) (MiddleOutOrder.order_vec it))"
  using assms
proof (induction it e out rule: MiddleOutOrder_loop.induct)
  case (1 it e out)
  let ?xs = "MiddleOutOrder.order_vec it" and ?p = "MiddleOutOrder.pos it"
  have ue: "unat (MiddleOutOrder.pos e) = length ?xs"
    using "1.prems" by (simp add: unat_vec_size)
  show ?case
  proof (cases "MiddleOutOrder_neq it e")
    case False
    then have "?p = MiddleOutOrder.pos e"
      by (simp add: MiddleOutOrder_neq_def MiddleOutOrder_eq_def)
    with ue have "unat ?p = length ?xs" by simp
    with False show ?thesis by (subst MiddleOutOrder_loop.simps) simp
  next
    case True
    then have ne: "?p \<noteq> MiddleOutOrder.pos e"
      by (simp add: MiddleOutOrder_neq_def MiddleOutOrder_eq_def)
    with ue "1.prems"(2) have lt: "unat ?p < length ?xs"
      by (metis le_neq_implies_less word_unat_eq_iff)
    then have wlt: "?p < vec_size ?xs"
      using ue "1.prems"(3) by (simp add: word_less_nat_alt)
    then have d: "MiddleOutOrder_deref it = Inr (?xs ! unat ?p)"
      by (simp add: MiddleOutOrder_deref_def not_le [symmetric])
    have suc: "unat (?p + 1) = Suc (unat ?p)" using wlt by (rule size_t_less_Suc)
    have "MiddleOutOrder_loop it e out
            = MiddleOutOrder_loop (MiddleOutOrder_inc it) e (out @ [?xs ! unat ?p])"
      using True d by (subst MiddleOutOrder_loop.simps) simp
    also have "\<dots> = Inr ((out @ [?xs ! unat ?p]) @ drop (Suc (unat ?p)) ?xs)"
      using "1.IH" [OF True d] "1.prems" lt suc by (simp add: MiddleOutOrder_inc_def)
    finally show ?thesis using lt by (simp add: Cons_nth_drop_Suc)
  qed
qed

lemma MiddleOutOrder_traverse_all:
  "length (MiddleOutOrder.order_vec v) < 2 ^ 64 \<Longrightarrow> MiddleOutOrder.pos v = 0 \<Longrightarrow>
   MiddleOutOrder_traverse v = Inr (MiddleOutOrder.order_vec v)"
  by (simp add: MiddleOutOrder_traverse_def MiddleOutOrder_begin_def MiddleOutOrder_end_def
      MiddleOutOrder_loop_drop)

lemma size_t_rev_index:
  assumes "length xs < 2 ^ 64" and "p < vec_size xs"
  shows "unat (vec_size xs - 1 - p) = length xs - Suc (unat p)"
proof -
  have le: "p + 1 \<le> vec_size xs" using assms(2) by (rule inc_le)
  have "vec_size xs - 1 - p = vec_size xs - (p + 1)" by simp
  then have "unat (vec_size xs - 1 - p) = unat (vec_size xs - (p + 1))" by (rule arg_cong)
  also have "\<dots> = unat (vec_size xs) - unat (p + 1)" using le by (rule unat_sub)
  also have "\<dots> = length xs - Suc (unat p)"
    using assms(1) size_t_less_Suc [OF assms(2)] by (simp add: unat_vec_size)
  finally show ?thesis .
qed

lemma Order_loop_drop:
  assumes "length (data (h (Order.cont it))) < 2 ^ 64"
    and "unat (Order.pos it) \<le> length (data (h (Order.cont it)))"
    and "Order.pos e = vec_size (data (h (Order.cont it)))"
  shows "Order_loop h it e out
           = Inr (out @ drop (unat (Order.pos it)) (data (h (Order.cont it))))"
  using assms
proof (induction h it e out rule: Order_loop.induct)
  case (1 h it e out)
  let ?xs = "data (h (Order.cont it))" and ?p = "Order.pos it"
  have ue: "unat (Order.pos e) = length ?xs"
    using "1.prems" by (simp add: unat_vec_size)
  show ?case
  proof (cases "Order_neq it e")
    case False
    then have "?p = Order.pos e"
      by (simp add: Order_neq_def Order_eq_def)
    with ue have "unat ?p = length ?xs" by simp
    with False show ?thesis by (subst Order_loop.simps) simp
  next
    case True
    then have ne: "?p \<noteq> Order.pos e"
      by (simp add: Order_neq_def Order_eq_def)
    with ue "1.prems"(2) have lt: "unat ?p < length ?xs"
      by (metis le_neq_implies_less word_unat_eq_iff)
    then have wlt: "?p < vec_size ?xs"
      using ue "1.prems"(3) by (simp add: word_less_nat_alt)
    then have d: "Order_deref h it = Inr (?xs ! unat ?p)"
      by (simp add: Order_deref_def get_data_def not_le [symmetric])
    have suc: "unat (?p + 1) = Suc (unat ?p)" using wlt by (rule size_t_less_Suc)
    have "Order_loop h it e out
            = Order_loop h (Order_inc it) e (out @ [?xs ! unat ?p])"
      using True d by (subst Order_loop.simps) simp
    also have "\<dots> = Inr ((out @ [?xs ! unat ?p]) @ drop (Suc (unat ?p)) ?xs)"
      using "1.IH" [OF True d] "1.prems" lt suc by (simp add: Order_inc_def)
    finally show ?thesis using lt by (simp add: Cons_nth_drop_Suc)
  qed
qed

lemma Order_traverse_all:
  "length (data (h (Order.cont v))) < 2 ^ 64 \<Longrightarrow> Order.pos v = 0 \<Longrightarrow>
   Order_traverse h v = Inr (data (h (Order.cont v)))"
  by (simp add: Order_traverse_def Order_begin_def Order_end_def get_data_def Order_loop_drop)

lemma ReverseOrder_loop_drop:
  assumes "length (data (h (ReverseOrder.cont it))) < 2 ^ 64"
    and "unat (ReverseOrder.pos it) \<le> length (data (h (ReverseOrder.cont it)))"
    and "ReverseOrder.pos e = vec_size (data (h (ReverseOrder.cont it)))"
  shows "ReverseOrder_loop h it e out
           = Inr (out @ drop (unat (ReverseOrder.pos it)) (rev (data (h (ReverseOrder.cont it)))))"
  using assms
proof (induction h it e out rule: ReverseOrder_loop.induct)
  case (1 h it e out)
  let ?xs = "data (h (ReverseOrder.cont it))" and ?p = "ReverseOrder.pos it"
  have ue: "unat (ReverseOrder.pos e) = length ?xs"
    using "1.prems" by (simp add: unat_vec_size)
  show ?case
  proof (cases "ReverseOrder_neq it e")
    case False
    then have "?p = ReverseOrder.pos e"
      by (simp add: ReverseOrder_neq_def ReverseOrder_eq_def)
    with ue have "unat ?p = length ?xs" by simp
    with False show ?thesis by (subst ReverseOrder_loop.simps) simp
  next
    case True
    then have ne: "?p \<noteq> ReverseOrder.pos e"
      by (simp add: ReverseOrder_neq_def ReverseOrder_eq_def)
    with ue "1.prems"(2) have lt: "unat ?p < length ?xs"
      by (metis le_neq_implies_less word_unat_eq_iff)
    then have wlt: "?p < vec_size ?xs"
      using ue "1.prems"(3) by (simp add: word_less_nat_alt)
    have idx: "unat (vec_size ?xs - 1 - ?p) = length ?xs - Suc (unat ?p)"
      using "1.prems"(1) wlt by (rule size_t_rev_index)
    have nth: "rev ?xs ! unat ?p = ?xs ! (length ?xs - Suc (unat ?p))"
      using lt by (rule rev_nth)
    have d: "ReverseOrder_deref h it = Inr (rev ?xs ! unat ?p)"
      using wlt idx nth by (simp add: ReverseOrder_deref_def get_data_def Let_def not_le [symmetric])
    have suc: "unat (?p + 1) = Suc (unat ?p)" using wlt by (rule size_t_less_Suc)
    have "ReverseOrder_loop h it e out
            = ReverseOrder_loop h (ReverseOrder_inc it) e (out @ [rev ?xs ! unat ?p])"
      using True d by (subst ReverseOrder_loop.simps) simp
    also have "\<dots> = Inr ((out @ [rev ?xs ! unat ?p]) @ drop (Suc (unat ?p)) (rev ?xs))"
      using "1.IH" [OF True d] "1.prems" lt suc by (simp add: ReverseOrder_inc_def)
    finally show ?thesis using lt by (simp add: Cons_nth_drop_Suc)
  qed
qed

lemma ReverseOrder_traverse_all:
  "length (data (h (ReverseOrder.cont v))) < 2 ^ 64 \<Longrightarrow> ReverseOrder.pos v = 0 \<Longrightarrow>
   ReverseOrder_traverse h v = Inr (rev (data (h (ReverseOrder.cont v))))"
  by (simp add: ReverseOrder_traverse_def ReverseOrder_begin_def ReverseOrder_end_def
      get_data_def ReverseOrder_loop_drop)

subsection \<open>Facts about the side-cross constructor\<close>

text \<open>
  Run on the indices \<open>left\<close> and \<open>right\<close>, the loop appends the side-cross order of the
  slots from \<open>left\<close> to \<open>right\<close>.
\<close>

lemma side_cross_ends: "side_cross_spec (x # ys @ [z]) = x # z # side_cross_spec ys"
  by (cases ys) simp_all

lemma mset_side_cross: "mset (side_cross_spec xs) = mset xs"
proof (induction xs rule: side_cross_spec.induct)
  case (3 x y ys)
  have "mset (y # ys) = mset (butlast (y # ys) @ [last (y # ys)])"
    by (simp only: append_butlast_last_id [OF list.distinct(2)])
  then have "mset (y # ys) = add_mset (last (y # ys)) (mset (butlast (y # ys)))"
    by simp
  with 3 show ?case by simp
qed simp_all

lemma length_side_cross: "length (side_cross_spec xs) = length xs"
  using mset_side_cross [of xs] by (metis size_mset)

lemma segment_ends:
  assumes "l < r" and "r < length s"
  shows "take (Suc r - l) (drop l s) = s ! l # take (r - Suc l) (drop (Suc l) s) @ [s ! r]"
proof -
  have "take (Suc r - l) (drop l s) = take (Suc (r - l)) (s ! l # drop (Suc l) s)"
    using assms by (simp add: Cons_nth_drop_Suc Suc_diff_le)
  also have "\<dots> = s ! l # take (r - l) (drop (Suc l) s)"
    by simp
  also have "r - l = Suc (r - Suc l)"
    using assms by simp
  also have "take (Suc (r - Suc l)) (drop (Suc l) s)
       = take (r - Suc l) (drop (Suc l) s) @ [drop (Suc l) s ! (r - Suc l)]"
    using assms by (intro take_Suc_conv_app_nth) simp
  also have "drop (Suc l) s ! (r - Suc l) = s ! r"
    using assms by simp
  finally show ?thesis by simp
qed

lemma size_t_pred: "0 < (r :: size_t) \<Longrightarrow> unat (r - 1) = unat r - 1"
  by (simp add: unat_minus_one word_gt_0)

lemma sidecross_loop_segment:
  assumes "unat right < length s" and "length s < 2 ^ 64"
  shows "sidecross_loop s left right acc
           = acc @ side_cross_spec (take (Suc (unat right) - unat left) (drop (unat left) s))"
  using assms
proof (induction s left right acc rule: sidecross_loop.induct)
  case (1 s left right acc)
  let ?l = "unat left" and ?r = "unat right"
  show ?case
  proof (cases "left \<le> right")
    case False
    then have "?r < ?l" by (simp add: word_le_nat_alt)
    then have "Suc ?r - ?l = 0" by simp
    with False show ?thesis by (subst sidecross_loop.simps) simp
  next
    case True
    then have le: "?l \<le> ?r" by (simp add: word_le_nat_alt)
    have lsuc: "unat (left + 1) = Suc ?l"
    proof -
      have "?r < 2 ^ 64 - 1" using "1.prems" by simp
      with le have "?l + unat (1 :: size_t) < 2 ^ LENGTH(64)" by simp
      then have "unat (left + 1) = ?l + unat (1 :: size_t)" by (simp only: unat_add_lem)
      then show ?thesis by simp
    qed
    let ?right' = "if 0 < right then right - 1 else right"
    have r': "unat ?right' = ?r - 1"
      using word_gt_0 [of right] by (auto simp: size_t_pred)
    then have r'lt: "unat ?right' < length s" using "1.prems" by simp
    note len = "1.prems"(2)
    show ?thesis
    proof (cases "left = right")
      case True
      then have seg: "take (Suc ?r - ?l) (drop ?l s) = [s ! ?l]"
        using "1.prems" by (simp add: take_Suc_conv_app_nth Cons_nth_drop_Suc [symmetric])
      have "sidecross_loop s left right acc
              = sidecross_loop s (left + 1) ?right' (acc @ [s ! ?l])"
        using True by (subst sidecross_loop.simps) simp
      also have "\<dots> = (acc @ [s ! ?l])
           @ side_cross_spec (take (Suc (unat ?right') - unat (left + 1)) (drop (unat (left + 1)) s))"
        using "1.IH" [OF \<open>left \<le> right\<close> r'lt len] True by simp
      also have "Suc (unat ?right') - unat (left + 1) = 0"
        using True r' lsuc by simp
      finally show ?thesis using seg by simp
    next
      case False
      with le have lt: "?l < ?r" by (metis le_neq_implies_less word_unat_eq_iff)
      have seg: "take (Suc ?r - ?l) (drop ?l s)
                   = s ! ?l # take (?r - Suc ?l) (drop (Suc ?l) s) @ [s ! ?r]"
        using lt "1.prems"(1) by (rule segment_ends)
      have "sidecross_loop s left right acc
              = sidecross_loop s (left + 1) ?right' (acc @ [s ! ?l] @ [s ! ?r])"
        using \<open>left \<le> right\<close> False by (subst sidecross_loop.simps) simp
      also have "\<dots> = (acc @ [s ! ?l] @ [s ! ?r])
           @ side_cross_spec (take (Suc (unat ?right') - unat (left + 1)) (drop (unat (left + 1)) s))"
        using "1.IH" [OF \<open>left \<le> right\<close> r'lt len] False by simp
      also have "Suc (unat ?right') - unat (left + 1) = ?r - Suc ?l"
        using r' lsuc lt by simp
      finally show ?thesis using seg lsuc by (simp add: side_cross_ends)
    qed
  qed
qed

lemma SideCrossOrder_ctor_order:
  fixes h :: "('a :: linorder) heap"
  assumes "length (data (h c)) < 2 ^ 64"
  shows "SideCrossOrder.order_vec (SideCrossOrder_ctor h c) = side_cross_spec (std_sort (<) (data (h c)))"
proof (cases "std_sort (<) (data (h c)) = []")
  case True
  then show ?thesis by (simp add: SideCrossOrder_ctor_def get_data_def)
next
  case False
  let ?s = "std_sort (<) (data (h c))"
  have len: "length ?s = length (data (h c))"
    using mset_std_sort [of "(<)" "data (h c)"] by (metis size_mset)
  with assms have "length ?s < 2 ^ 64" by simp
  from this have u: "unat (vec_size ?s) = length ?s" by (rule unat_vec_size)
  from False have pos: "0 < length ?s" by simp
  with u have "vec_size ?s \<noteq> 0" by (metis unat_0 less_numeral_extra(3))
  then have r: "unat (vec_size ?s - 1) = length ?s - 1"
    using u by (simp add: unat_minus_one)
  with pos have "unat (vec_size ?s - 1) < length ?s" by simp
  from this \<open>length ?s < 2 ^ 64\<close> have "sidecross_loop ?s 0 (vec_size ?s - 1) []
     = [] @ side_cross_spec (take (Suc (unat (vec_size ?s - 1)) - unat (0 :: size_t)) (drop (unat (0 :: size_t)) ?s))"
    by (rule sidecross_loop_segment)
  then have "sidecross_loop ?s 0 (vec_size ?s - 1) [] = side_cross_spec ?s"
    using r pos by simp
  with False show ?thesis by (simp add: SideCrossOrder_ctor_def get_data_def Let_def)
qed

subsection \<open>Facts about the middle-out constructor\<close>

text \<open>
  Below \<open>2^31\<close> elements \<open>static_cast<int>\<close> keeps the size and the middle index, and the
  loop alternates over the slots to the left of \<open>left\<close> and from \<open>right\<close> on. Once the
  cast of the size is not above \<open>right\<close>, the loop emits the left side only.
\<close>

lemma static_cast_int_small: "n < 2 ^ 31 \<Longrightarrow> static_cast_int (of_nat n) = int n"
proof -
  assume n: "n < 2 ^ 31"
  then have "uint (of_nat n :: size_t) = int n"
    by (simp add: unsigned_of_nat take_bit_nat_eq_self)
  with n show ?thesis by (simp add: static_cast_int_def Let_def)
qed

lemma alternate_Nil2: "alternate_spec ls [] = ls"
  by (cases ls) simp_all

lemma length_alternate: "length (alternate_spec ls rs) = length ls + length rs"
  by (induction ls rs rule: alternate_spec.induct) simp_all

lemma mset_alternate: "mset (alternate_spec ls rs) = mset ls + mset rs"
  by (induction ls rs rule: alternate_spec.induct) simp_all

lemma mset_middle_out: "mset (middle_out_spec xs) = mset xs"
proof (cases "xs = []")
  case True
  then show ?thesis by (simp add: middle_out_spec_def)
next
  case False
  let ?m = "length xs div 2"
  have lt: "?m < length xs" using False by simp
  have "xs = take ?m xs @ xs ! ?m # drop (Suc ?m) xs"
    using lt by (rule id_take_nth_drop)
  then have "mset xs = mset (take ?m xs @ xs ! ?m # drop (Suc ?m) xs)" by simp
  also have "\<dots> = add_mset (xs ! ?m) (mset (rev (take ?m xs)) + mset (drop (Suc ?m) xs))"
    by simp
  finally show ?thesis using False by (simp add: middle_out_spec_def Let_def mset_alternate)
qed

lemma length_middle_out: "length (middle_out_spec xs) = length xs"
  using mset_middle_out [of xs] by (metis size_mset)

lemma rev_take_Suc: "i < length xs \<Longrightarrow> rev (take (Suc i) xs) = xs ! i # rev (take i xs)"
  by (simp add: take_Suc_conv_app_nth)

lemma push_left_in:
  "0 \<le> left \<Longrightarrow> nat left < length xs \<Longrightarrow>
   push_left xs left acc = Inr (acc @ [xs ! nat left], left - 1)"
  by (simp add: push_left_def vec_read_def)

lemma push_left_out: "left < 0 \<Longrightarrow> push_left xs left acc = Inr (acc, left)"
  by (simp add: push_left_def)

lemma push_right_in:
  "right < static_cast_int (vec_size xs) \<Longrightarrow> 0 \<le> right \<Longrightarrow> nat right < length xs \<Longrightarrow>
   push_right xs right acc = Inr (acc @ [xs ! nat right], right + 1)"
  by (simp add: push_right_def vec_read_def)

lemma push_right_out:
  "static_cast_int (vec_size xs) \<le> right \<Longrightarrow> push_right xs right acc = Inr (acc, right)"
  by (simp add: push_right_def)

lemma middle_out_loop_small:
  assumes "length xs < 2 ^ 31"
    and "- 1 \<le> left" and "left < int (length xs)"
    and "0 \<le> right" and "right \<le> int (length xs)"
  shows "middle_out_loop xs left right acc
           = Inr (acc @ alternate_spec (rev (take (nat (left + 1)) xs)) (drop (nat right) xs))"
  using assms
proof (induction xs left right acc rule: middle_out_loop.induct)
  case (1 xs left right acc)
  have n: "static_cast_int (vec_size xs) = int (length xs)"
    using "1.prems"(1) by (simp add: vec_size_def static_cast_int_small)
  let ?ls = "rev (take (nat (left + 1)) xs)" and ?rs = "drop (nat right) xs"
  consider (both) "0 \<le> left" "right < int (length xs)"
    | (left_only) "0 \<le> left" "int (length xs) \<le> right"
    | (right_only) "left < 0" "right < int (length xs)"
    | (none) "left < 0" "int (length xs) \<le> right"
    by linarith
  then show ?case
  proof cases
    case both
    have l: "push_left xs left acc = Inr (acc @ [xs ! nat left], left - 1)"
      using both "1.prems" by (intro push_left_in) auto
    have r: "push_right xs right (acc @ [xs ! nat left])
               = Inr ((acc @ [xs ! nat left]) @ [xs ! nat right], right + 1)"
      using both "1.prems" n by (intro push_right_in) auto
    have c: "0 \<le> left \<or> right < static_cast_int (vec_size xs)" using both by simp
    have "middle_out_loop xs left right acc
            = middle_out_loop xs (left - 1) (right + 1) ((acc @ [xs ! nat left]) @ [xs ! nat right])"
      using c l r by (subst middle_out_loop.simps) simp
    also have "\<dots> = Inr (((acc @ [xs ! nat left]) @ [xs ! nat right])
        @ alternate_spec (rev (take (nat (left - 1 + 1)) xs)) (drop (nat (right + 1)) xs))"
      using both "1.prems" by (intro "1.IH" [OF c l refl r refl]) auto
    finally have step: "middle_out_loop xs left right acc
        = Inr (acc @ xs ! nat left # xs ! nat right
               # alternate_spec (rev (take (nat left) xs)) (drop (nat (right + 1)) xs))"
      by simp
    have "nat (left + 1) = Suc (nat left)" using both by simp
    then have ls: "?ls = xs ! nat left # rev (take (nat left) xs)"
      using both "1.prems" by (simp add: rev_take_Suc)
    have rs: "?rs = xs ! nat right # drop (nat (right + 1)) xs"
      using both "1.prems" by (simp add: Cons_nth_drop_Suc nat_add_distrib)
    show ?thesis by (simp only: step ls rs alternate_spec.simps)
  next
    case left_only
    have l: "push_left xs left acc = Inr (acc @ [xs ! nat left], left - 1)"
      using left_only "1.prems" by (intro push_left_in) auto
    have r: "push_right xs right (acc @ [xs ! nat left]) = Inr (acc @ [xs ! nat left], right)"
      using left_only n by (intro push_right_out) simp
    have c: "0 \<le> left \<or> right < static_cast_int (vec_size xs)" using left_only by simp
    have "middle_out_loop xs left right acc
            = middle_out_loop xs (left - 1) right (acc @ [xs ! nat left])"
      using c l r by (subst middle_out_loop.simps) simp
    also have "\<dots> = Inr ((acc @ [xs ! nat left])
        @ alternate_spec (rev (take (nat (left - 1 + 1)) xs)) (drop (nat right) xs))"
      using left_only "1.prems" by (intro "1.IH" [OF c l refl r refl]) auto
    finally have step: "middle_out_loop xs left right acc
        = Inr (acc @ xs ! nat left # alternate_spec (rev (take (nat left) xs)) (drop (nat right) xs))"
      by simp
    have "nat (left + 1) = Suc (nat left)" using left_only by simp
    then have ls: "?ls = xs ! nat left # rev (take (nat left) xs)"
      using left_only "1.prems" by (simp add: rev_take_Suc)
    have rs: "?rs = []" using left_only by simp
    show ?thesis by (simp only: step ls rs alternate_Nil2)
  next
    case right_only
    have l: "push_left xs left acc = Inr (acc, left)"
      using right_only by (intro push_left_out) simp
    have r: "push_right xs right acc = Inr (acc @ [xs ! nat right], right + 1)"
      using right_only "1.prems" n by (intro push_right_in) auto
    have c: "0 \<le> left \<or> right < static_cast_int (vec_size xs)" using right_only n by simp
    have "middle_out_loop xs left right acc
            = middle_out_loop xs left (right + 1) (acc @ [xs ! nat right])"
      using c l r by (subst middle_out_loop.simps) simp
    also have "\<dots> = Inr ((acc @ [xs ! nat right])
        @ alternate_spec (rev (take (nat (left + 1)) xs)) (drop (nat (right + 1)) xs))"
      using right_only "1.prems" by (intro "1.IH" [OF c l refl r refl]) auto
    finally have step: "middle_out_loop xs left right acc
        = Inr (acc @ xs ! nat right
               # alternate_spec (rev (take (nat (left + 1)) xs)) (drop (nat (right + 1)) xs))"
      by simp
    have ls: "?ls = []" using right_only by simp
    have rs: "?rs = xs ! nat right # drop (nat (right + 1)) xs"
      using right_only "1.prems" by (simp add: Cons_nth_drop_Suc nat_add_distrib)
    show ?thesis by (simp only: step ls rs alternate_spec.simps)
  next
    case none
    then have "\<not> (0 \<le> left \<or> right < static_cast_int (vec_size xs))" using n by simp
    then have step: "middle_out_loop xs left right acc = Inr acc"
      by (subst middle_out_loop.simps) simp
    have ls: "?ls = []" and rs: "?rs = []" using none by simp_all
    show ?thesis by (simp only: step ls rs alternate_spec.simps append_Nil2)
  qed
qed

lemma vec_size_half:
  assumes "length xs < 2 ^ 64"
  shows "unat (vec_size xs div 2) = length xs div 2"
proof -
  have "unat (vec_size xs div 2) = unat (vec_size xs) div unat (2 :: size_t)"
    by (rule unat_div)
  then show ?thesis using assms by (simp add: unat_vec_size)
qed

lemma MiddleOutOrder_ctor_small:
  assumes "length (data (h c)) < 2 ^ 31"
  shows "MiddleOutOrder_ctor h c
           = Inr \<lparr>MiddleOutOrder.cont = c, order_vec = middle_out_spec (data (h c)), pos = 0\<rparr>"
proof (cases "data (h c) = []")
  case True
  then show ?thesis by (simp add: MiddleOutOrder_ctor_def get_data_def middle_out_spec_def)
next
  case False
  let ?xs = "data (h c)"
  let ?mid = "vec_size ?xs div 2"
  let ?n = "length ?xs"
  have pos: "0 < ?n" using False by simp
  have "?n < 2 ^ 64" using assms by simp
  then have um: "unat ?mid = ?n div 2" by (rule vec_size_half)
  have "?mid = of_nat (unat ?mid)" by simp
  then have "static_cast_int ?mid = static_cast_int (of_nat (?n div 2))"
    using um by simp
  also have "\<dots> = int (?n div 2)"
    using assms by (intro static_cast_int_small) simp
  finally have m: "static_cast_int ?mid = int (?n div 2)" .
  have range: "\<not> (int (?n div 2) - 1 < INT_MIN \<or> INT_MAX < int (?n div 2) + 1)"
    using assms by (simp add: INT_MIN_def INT_MAX_def)
  have "middle_out_loop ?xs (int (?n div 2) - 1) (int (?n div 2) + 1) [?xs ! (?n div 2)]
     = Inr ([?xs ! (?n div 2)]
          @ alternate_spec (rev (take (nat (int (?n div 2) - 1 + 1)) ?xs))
                      (drop (nat (int (?n div 2) + 1)) ?xs))"
  proof (rule middle_out_loop_small)
    show "?n < 2 ^ 31" by (rule assms)
    show "- 1 \<le> int (?n div 2) - 1" by simp
    show "int (?n div 2) - 1 < int ?n" using pos by linarith
    show "0 \<le> int (?n div 2) + 1" by simp
    show "int (?n div 2) + 1 \<le> int ?n" using pos by linarith
  qed
  also have "nat (int (?n div 2) - 1 + 1) = ?n div 2" by simp
  also have "nat (int (?n div 2) + 1) = Suc (?n div 2)" by simp
  finally have loop: "middle_out_loop ?xs (int (?n div 2) - 1) (int (?n div 2) + 1) [?xs ! (?n div 2)]
     = Inr (middle_out_spec ?xs)"
    using False by (simp add: middle_out_spec_def Let_def)
  show ?thesis
    using False range
    by (simp add: MiddleOutOrder_ctor_def get_data_def Let_def m um loop)
qed

lemma middle_out_loop_right_blind:
  assumes "static_cast_int (vec_size xs) \<le> right"
    and "- 1 \<le> left" and "left < int (length xs)"
  shows "middle_out_loop xs left right acc = Inr (acc @ rev (take (nat (left + 1)) xs))"
  using assms
proof (induction xs left right acc rule: middle_out_loop.induct)
  case (1 xs left right acc)
  show ?case
  proof (cases "0 \<le> left")
    case True
    have l: "push_left xs left acc = Inr (acc @ [xs ! nat left], left - 1)"
      using True "1.prems" by (intro push_left_in) auto
    have r: "push_right xs right (acc @ [xs ! nat left]) = Inr (acc @ [xs ! nat left], right)"
      using "1.prems"(1) by (rule push_right_out)
    have c: "0 \<le> left \<or> right < static_cast_int (vec_size xs)" using True by simp
    have "middle_out_loop xs left right acc
            = middle_out_loop xs (left - 1) right (acc @ [xs ! nat left])"
      using c l r by (subst middle_out_loop.simps) simp
    also have "\<dots> = Inr ((acc @ [xs ! nat left]) @ rev (take (nat (left - 1 + 1)) xs))"
      using True "1.prems" by (intro "1.IH" [OF c l refl r refl]) auto
    finally have step: "middle_out_loop xs left right acc
        = Inr (acc @ xs ! nat left # rev (take (nat left) xs))"
      by simp
    have "nat (left + 1) = Suc (nat left)" using True by simp
    then have ls: "rev (take (nat (left + 1)) xs) = xs ! nat left # rev (take (nat left) xs)"
      using True "1.prems" by (simp add: rev_take_Suc)
    show ?thesis by (simp only: step ls)
  next
    case False
    then have "\<not> (0 \<le> left \<or> right < static_cast_int (vec_size xs))"
      using "1.prems"(1) by simp
    then have step: "middle_out_loop xs left right acc = Inr acc"
      by (subst middle_out_loop.simps) simp
    have ls: "rev (take (nat (left + 1)) xs) = []" using False by simp
    show ?thesis by (simp only: step ls append_Nil2)
  qed
qed

text \<open>
  On a store of fewer than \<open>2^31\<close> elements the middle-out constructor succeeds and the
  traversal of its view is the middle-out order of the specification.
\<close>

lemma MiddleOutOrder_small_store:
  assumes "length (data (h c)) < 2 ^ 31"
  shows "middle_out_order h c
           = Inr \<lparr>MiddleOutOrder.cont = c, order_vec = middle_out_spec (data (h c)), pos = 0\<rparr> \<and>
         MiddleOutOrder_traverse
             \<lparr>MiddleOutOrder.cont = c, order_vec = middle_out_spec (data (h c)), pos = 0\<rparr>
           = Inr (middle_out_spec (data (h c)))"
proof
  show "middle_out_order h c
          = Inr \<lparr>MiddleOutOrder.cont = c, order_vec = middle_out_spec (data (h c)), pos = 0\<rparr>"
    using assms by (simp add: middle_out_order_def MiddleOutOrder_ctor_small)
  have "length (middle_out_spec (data (h c))) < 2 ^ 64"
    using assms by (simp add: length_middle_out)
  then show "MiddleOutOrder_traverse
             \<lparr>MiddleOutOrder.cont = c, order_vec = middle_out_spec (data (h c)), pos = 0\<rparr>
           = Inr (middle_out_spec (data (h c)))"
    using MiddleOutOrder_traverse_all
      [of "\<lparr>MiddleOutOrder.cont = c, order_vec = middle_out_spec (data (h c)), pos = 0\<rparr>"]
    by simp
qed

lemma MiddleOutOrder_examples:
  "middle_out_spec [1, 2, 3, 4, 5 :: int] = [3, 2, 4, 1, 5]"
  "middle_out_spec [10, 20, 30, 40 :: int] = [30, 20, 40, 10]"
  by (simp_all add: middle_out_spec_def)

text \<open>
  A store of \<open>2^31\<close> elements: \<open>static_cast<int>(data.size())\<close> is \<open>INT_MIN\<close>, the test
  \<open>right < static_cast<int>(data.size())\<close> never holds, and the view holds the middle
  element and the left half only.
\<close>

lemma large_store_ctor:
  fixes a m b :: "'a"
  defines "big \<equiv> replicate (2 ^ 30) a @ m # replicate (2 ^ 30 - 1) b"
  shows "MiddleOutOrder_ctor (\<lambda>r. \<lparr>data = big\<rparr>) c
     = Inr \<lparr>MiddleOutOrder.cont = c, order_vec = m # replicate (2 ^ 30) a, pos = 0\<rparr>"
proof -
  have big_len: "length big = 2 ^ 31" by (simp add: big_def)
  have vs: "vec_size big = 2147483648" by (simp add: vec_size_def big_len)
  have sz: "static_cast_int (vec_size big) = - 2147483648"
    unfolding vs by (simp add: static_cast_int_def)
  have mid: "vec_size big div 2 = 1073741824" unfolding vs by simp
  have m: "static_cast_int 1073741824 = 1073741824" by (simp add: static_cast_int_def)
  have at_mid: "big ! 1073741824 = m" by (simp add: big_def nth_append)
  have tk: "take 1073741824 big = replicate (2 ^ 30) a" by (simp add: big_def)
  have "middle_out_loop big 1073741823 1073741825 [m]
          = Inr ([m] @ rev (take (nat (1073741823 + 1)) big))"
    by (rule middle_out_loop_right_blind) (simp_all add: sz big_len)
  then have loop: "middle_out_loop big 1073741823 1073741825 [m]
          = Inr (m # replicate (2 ^ 30) a)"
    by (simp add: tk)
  have ne: "big \<noteq> []" by (simp add: big_def)
  show ?thesis
    using ne
    by (simp add: MiddleOutOrder_ctor_def get_data_def Let_def mid m at_mid loop
        INT_MIN_def INT_MAX_def)
qed

lemma MiddleOutOrder_empty_or_single:
  assumes "data (h c) = [] \<or> data (h c) = [x]"
  shows "middle_out_order h c
           = Inr \<lparr>MiddleOutOrder.cont = c, order_vec = data (h c), pos = 0\<rparr> \<and>
         MiddleOutOrder_traverse \<lparr>MiddleOutOrder.cont = c, order_vec = data (h c), pos = 0\<rparr>
           = Inr (data (h c))"
proof -
  have small: "length (data (h c)) < 2 ^ 31" using assms by auto
  have "middle_out_spec (data (h c)) = data (h c)" using assms by (auto simp: middle_out_spec_def)
  with MiddleOutOrder_small_store [where h = h and c = c, OF small] show ?thesis by simp
qed

subsection \<open>Traversals of views as the accessors return them\<close>

lemma AscendingOrder_traverse_fresh:
  fixes h :: "('a :: linorder) heap"
  assumes "length (data (h c)) < 2 ^ 64"
  shows "AscendingOrder_traverse (ascending_order h c) = Inr (std_sort (<) (data (h c)))"
proof -
  let ?v = "ascending_order h c"
  have vec: "AscendingOrder.sorted_vec ?v = std_sort (<) (data (h c))"
    and p: "AscendingOrder.pos ?v = 0"
    by (simp_all add: ascending_order_def AscendingOrder_ctor_def get_data_def)
  have "length (AscendingOrder.sorted_vec ?v) < 2 ^ 64"
    using assms by (simp add: vec length_std_sort)
  then have "AscendingOrder_traverse ?v = Inr (AscendingOrder.sorted_vec ?v)"
    using p by (rule AscendingOrder_traverse_all)
  with vec show ?thesis by simp
qed

lemma DescendingOrder_traverse_fresh:
  fixes h :: "('a :: linorder) heap"
  assumes "length (data (h c)) < 2 ^ 64"
  shows "DescendingOrder_traverse (descending_order h c) = Inr (std_sort std_greater (data (h c)))"
proof -
  let ?v = "descending_order h c"
  have vec: "DescendingOrder.sorted_vec ?v = std_sort std_greater (data (h c))"
    and p: "DescendingOrder.pos ?v = 0"
    by (simp_all add: descending_order_def DescendingOrder_ctor_def get_data_def)
  have "length (DescendingOrder.sorted_vec ?v) < 2 ^ 64"
    using assms by (simp add: vec length_std_sort)
  then have "DescendingOrder_traverse ?v = Inr (DescendingOrder.sorted_vec ?v)"
    using p by (rule DescendingOrder_traverse_all)
  with vec show ?thesis by simp
qed

lemma SideCrossOrder_traverse_fresh:
  fixes h :: "('a :: linorder) heap"
  assumes "length (data (h c)) < 2 ^ 64"
  shows "SideCrossOrder_traverse (sidecross_order h c)
           = Inr (side_cross_spec (std_sort (<) (data (h c))))"
proof -
  let ?v = "sidecross_order h c"
  have vec: "SideCrossOrder.order_vec ?v = side_cross_spec (std_sort (<) (data (h c)))"
    using assms by (simp add: sidecross_order_def SideCrossOrder_ctor_order)
  have p: "SideCrossOrder.pos ?v = 0"
    by (simp add: sidecross_order_def SideCrossOrder_ctor_def Let_def)
  have "length (SideCrossOrder.order_vec ?v) < 2 ^ 64"
    using assms by (simp add: vec length_side_cross length_std_sort)
  then have "SideCrossOrder_traverse ?v = Inr (SideCrossOrder.order_vec ?v)"
    using p by (rule SideCrossOrder_traverse_all)
  with vec show ?thesis by simp
qed

lemma Order_traverse_live:
  assumes "length (data (h' c)) < 2 ^ 64"
  shows "Order_traverse h' (order h c) = Inr (data (h' c))"
proof -
  have c: "Order.cont (order h c) = c" and p: "Order.pos (order h c) = 0"
    by (simp_all add: order_def Order_ctor_def)
  have "length (data (h' (Order.cont (order h c)))) < 2 ^ 64" using assms c by simp
  then have "Order_traverse h' (order h c) = Inr (data (h' (Order.cont (order h c))))"
    using p by (rule Order_traverse_all)
  with c show ?thesis by simp
qed

lemma ReverseOrder_traverse_live:
  assumes "length (data (h' c)) < 2 ^ 64"
  shows "ReverseOrder_traverse h' (reverse_order h c) = Inr (rev (data (h' c)))"
proof -
  have c: "ReverseOrder.cont (reverse_order h c) = c"
    and p: "ReverseOrder.pos (reverse_order h c) = 0"
    by (simp_all add: reverse_order_def ReverseOrder_ctor_def)
  have "length (data (h' (ReverseOrder.cont (reverse_order h c)))) < 2 ^ 64"
    using assms c by simp
  then have "ReverseOrder_traverse h' (reverse_order h c)
               = Inr (rev (data (h' (ReverseOrder.cont (reverse_order h c)))))"
    using p by (rule ReverseOrder_traverse_all)
  with c show ?thesis by simp
qed

subsection \<open>Rules that evaluate the model on a given store\<close>

lemmas cursor_eval =
  AscendingOrder_traverse_def AscendingOrder_loop.simps AscendingOrder_begin_def
  AscendingOrder_end_def AscendingOrder_neq_def AscendingOrder_eq_def AscendingOrder_deref_def
  AscendingOrder_inc_def
  DescendingOrder_traverse_def DescendingOrder_loop.simps DescendingOrder_begin_def
  DescendingOrder_end_def DescendingOrder_neq_def DescendingOrder_eq_def DescendingOrder_deref_def
  DescendingOrder_inc_def
  SideCrossOrder_traverse_def SideCrossOrder_loop.simps SideCrossOrder_begin_def
  SideCrossOrder_end_def SideCrossOrder_neq_def SideCrossOrder_eq_def SideCrossOrder_deref_def
  SideCrossOrder_inc_def
  ReverseOrder_traverse_def ReverseOrder_loop.simps ReverseOrder_begin_def
  ReverseOrder_end_def ReverseOrder_neq_def ReverseOrder_eq_def ReverseOrder_deref_def
  ReverseOrder_inc_def
  Order_traverse_def Order_loop.simps Order_begin_def
  Order_end_def Order_neq_def Order_eq_def Order_deref_def
  Order_inc_def
  MiddleOutOrder_traverse_def MiddleOutOrder_loop.simps MiddleOutOrder_begin_def
  MiddleOutOrder_end_def MiddleOutOrder_neq_def MiddleOutOrder_eq_def MiddleOutOrder_deref_def
  MiddleOutOrder_inc_def
  word_le_nat_alt word_less_nat_alt

lemmas ctor_eval =
  ascending_order_def descending_order_def sidecross_order_def reverse_order_def order_def
  middle_out_order_def
  AscendingOrder_ctor_def DescendingOrder_ctor_def SideCrossOrder_ctor_def ReverseOrder_ctor_def
  Order_ctor_def MiddleOutOrder_ctor_def
  std_sort_def std_greater_def sidecross_loop.simps middle_out_loop.simps push_left_def
  push_right_def vec_read_def static_cast_int_def INT_MIN_def INT_MAX_def
  mutate_def

lemmas store_eval =
  remove_def std_remove_def erase_to_end_def remove_loop.simps add_def get_data_def
  vec_size_def size_c_def

section \<open>Claims about the backing store\<close>

text \<open>
  \<open>remove\<close> called with a value of the caller's. When the store holds \<open>k \<ge> 1\<close> slots
  equal to \<open>v\<close>, the call succeeds, the store is \<open>k\<close> slots shorter (its \<open>size()\<close> is smaller
  by \<open>k\<close>), no slot equal to \<open>v\<close> is left, and the slots that are left are the slots
  different from \<open>v\<close> in the order they had. When no slot equals \<open>v\<close>, on the empty store
  too, the call ends with the \<open>runtime_error\<close> exception ("Element not found"), an ordinary
  outcome of the call.
\<close>

lemma remove_by_value:
  "(1 \<le> count_list (data c) v \<longrightarrow>
      fst (remove (Value v) c) = Inr () \<and>
      length (data (snd (remove (Value v) c))) + count_list (data c) v = length (data c) \<and>
      size_c (snd (remove (Value v) c)) = size_c c - of_nat (count_list (data c) v) \<and>
      v \<notin> set (data (snd (remove (Value v) c))) \<and>
      data (snd (remove (Value v) c)) = filter (\<lambda>x. \<not> (x = v)) (data c)) \<and>
   (count_list (data c) v = 0 \<longrightarrow> fst (remove (Value v) c) = Inl runtime_error)"
proof (intro conjI impI)
  let ?c' = "snd (remove (Value v) c)"
  assume k: "1 \<le> count_list (data c) v"
  then have "v \<in> set (data c)" using count_list_pos_iff [of "data c" v] by simp
  then have found: "std_find (data c) v \<noteq> length (data c)"
    by (simp add: std_find_end_iff)
  then show "fst (remove (Value v) c) = Inr ()" by (simp add: remove_def)
  from found show kept: "data ?c' = filter (\<lambda>x. \<not> (x = v)) (data c)"
    by (simp add: remove_def erase_std_remove)
  then show len: "length (data ?c') + count_list (data c) v = length (data c)"
    by (simp add: length_filter_neq_count)
  from kept show "v \<notin> set (data ?c')" by simp
  have "of_nat (length (data c))
          = (of_nat (length (data ?c')) + of_nat (count_list (data c) v) :: size_t)"
    using len by (metis of_nat_add)
  then show "size_c ?c' = size_c c - of_nat (count_list (data c) v)"
    by (simp add: size_c_def vec_size_def)
next
  assume "count_list (data c) v = 0"
  then have "v \<notin> set (data c)" by (simp add: count_list_0_iff)
  then show "fst (remove (Value v) c) = Inl runtime_error"
    by (simp add: remove_def std_find_end_iff)
qed

lemma remove_by_value_examples:
  "remove (Value 1) \<lparr>data = [1, 2, 1, 3, 1 :: int]\<rparr> = (Inr (), \<lparr>data = [2, 3]\<rparr>)"
  "fst (remove (Value 4) \<lparr>data = [1, 2, 1, 3, 1 :: int]\<rparr>) = Inl runtime_error"
  "fst (remove (Value 4) \<lparr>data = ([] :: int list)\<rparr>) = Inl runtime_error"
  by (simp_all add: store_eval)

text \<open>
  C2. \<open>remove(v)\<close> on a store with \<open>k \<ge> 1\<close> slots equal to \<open>v\<close> leaves no slot equal to \<open>v\<close>
  and keeps the other slots in their order. The code does so when the argument is a value
  of the caller's (\<open>remove_by_value\<close>). It does not when the argument is a reference to a
  slot of the store: on the store 1, 2, 1, 2, the call \<open>c.remove(c[0])\<close> removes the value
  1, of which the store holds two; \<open>std::remove\<close> moves the 2 of slot 1 into slot 0, the
  reference now reads 2, the 1 of slot 2 is kept and the 2 of slot 3 is dropped. The call
  succeeds and leaves the store 2, 1.
\<close>

theorem remove_through_own_slot_keeps_a_match:
  "read_ref [1, 2, 1, 2 :: int] (subscript \<lparr>data = [1, 2, 1, 2 :: int]\<rparr> 0) = 1 \<and>
   count_list [1, 2, 1, 2 :: int] 1 = 2 \<and>
   remove (subscript \<lparr>data = [1, 2, 1, 2 :: int]\<rparr> 0) \<lparr>data = [1, 2, 1, 2 :: int]\<rparr>
     = (Inr (), \<lparr>data = [2, 1]\<rparr>) \<and>
   filter (\<lambda>x. \<not> (x = 1)) [1, 2, 1, 2 :: int] = [2, 2]"
  by (simp add: store_eval subscript_def)

text \<open>
  C10. A \<open>remove\<close> that fails leaves the store as it was: when no slot equals \<open>v\<close>, the call
  ends with \<open>runtime_error\<close> and the container after the call is the container before it,
  slot by slot. Whatever the argument, a call that ends with an error has written nothing.
\<close>

theorem remove_failure_keeps_store:
  "(count_list (data c) v = 0 \<longrightarrow>
      fst (remove (Value v) c) = Inl runtime_error \<and> snd (remove (Value v) c) = c \<and>
      data (snd (remove (Value v) c)) = data c) \<and>
   (\<forall>e. fst (remove val c) = Inl e \<longrightarrow> snd (remove val c) = c)"
proof (intro conjI impI allI)
  assume "count_list (data c) v = 0"
  then have "v \<notin> set (data c)" by (simp add: count_list_0_iff)
  then have none: "std_find (data c) v = length (data c)" by (simp add: std_find_end_iff)
  then show "fst (remove (Value v) c) = Inl runtime_error" by (simp add: remove_def)
  from none show "snd (remove (Value v) c) = c" by (simp add: remove_def)
  then show "data (snd (remove (Value v) c)) = data c" by simp
next
  fix e
  assume "fst (remove val c) = Inl e"
  then show "snd (remove val c) = c"
    by (simp add: remove_def split: if_splits)
qed

theorem remove_failure_keeps_store_witness:
  "count_list [5, 7, 5 :: int] 6 = 0 \<and>
   remove (Value 6) \<lparr>data = [5, 7, 5 :: int]\<rparr> = (Inl runtime_error, \<lparr>data = [5, 7, 5]\<rparr>) \<and>
   count_list ([] :: int list) 6 = 0 \<and>
   remove (Value 6) \<lparr>data = ([] :: int list)\<rparr> = (Inl runtime_error, \<lparr>data = []\<rparr>)"
  using remove_failure_keeps_store [of "\<lparr>data = [5, 7, 5 :: int]\<rparr>" 6 "Value 6"]
    remove_failure_keeps_store [of "\<lparr>data = ([] :: int list)\<rparr>" 6 "Value 6"]
  by (simp add: prod_eq_iff)

section \<open>Claims about the views\<close>

text \<open>
  C1, as the specification states it, fails for the two views that keep no copy. With the
  store 1, 2 at the creation of the views: after \<open>add(3)\<close> the traversal of the
  insertion-order view emits 1, 2, 3 and not 1, 2; after \<open>remove(1)\<close> the traversal of the
  reverse view emits 2 and not 2, 1.
\<close>

theorem live_views_see_later_mutations:
  "Order_traverse (\<lambda>r. \<lparr>data = [1, 2 :: int]\<rparr>) (order (\<lambda>r. \<lparr>data = [1, 2 :: int]\<rparr>) 0)
     = Inr [1, 2] \<and>
   Order_traverse (mutate 0 [Add 3] (\<lambda>r. \<lparr>data = [1, 2 :: int]\<rparr>))
       (order (\<lambda>r. \<lparr>data = [1, 2 :: int]\<rparr>) 0)
     = Inr [1, 2, 3] \<and>
   ReverseOrder_traverse (\<lambda>r. \<lparr>data = [1, 2 :: int]\<rparr>)
       (reverse_order (\<lambda>r. \<lparr>data = [1, 2 :: int]\<rparr>) 0)
     = Inr [2, 1] \<and>
   ReverseOrder_traverse (mutate 0 [Remove 1] (\<lambda>r. \<lparr>data = [1, 2 :: int]\<rparr>))
       (reverse_order (\<lambda>r. \<lparr>data = [1, 2 :: int]\<rparr>) 0)
     = Inr [2]"
  by (simp add: cursor_eval ctor_eval store_eval)

text \<open>
  C1, amended. The ascending, descending, side-cross and middle-out views copy the store
  when they are created, and their cursors read the copy only (\<open>operator*\<close> and \<open>end()\<close>
  take no heap): the traversal emits the sequence computed from the store as it was at
  the creation of the view, whatever \<open>add\<close> and \<open>remove\<close> calls follow. The insertion-order
  and reverse views read the store through their reference: a traversal made after the
  calls \<open>ms\<close> emits the store as the calls left it, forward and backward.
\<close>

theorem copies_are_snapshots_references_are_live:
  fixes h :: "('a :: linorder) heap"
  assumes "length (data (h c)) < 2 ^ 64"
    and "length (data (mutate c ms h c)) < 2 ^ 64"
  shows
  "AscendingOrder_traverse (ascending_order h c) = Inr (std_sort (<) (data (h c))) \<and>
   DescendingOrder_traverse (descending_order h c) = Inr (std_sort std_greater (data (h c))) \<and>
   SideCrossOrder_traverse (sidecross_order h c) = Inr (side_cross_spec (std_sort (<) (data (h c)))) \<and>
   (\<forall>v. middle_out_order h c = Inr v \<and> length (MiddleOutOrder.order_vec v) < 2 ^ 64 \<longrightarrow>
        MiddleOutOrder_traverse v = Inr (MiddleOutOrder.order_vec v)) \<and>
   Order_traverse (mutate c ms h) (order h c) = Inr (data (mutate c ms h c)) \<and>
   ReverseOrder_traverse (mutate c ms h) (reverse_order h c) = Inr (rev (data (mutate c ms h c)))"
proof (intro conjI allI impI)
  show "AscendingOrder_traverse (ascending_order h c) = Inr (std_sort (<) (data (h c)))"
    using assms(1) by (rule AscendingOrder_traverse_fresh)
  show "DescendingOrder_traverse (descending_order h c) = Inr (std_sort std_greater (data (h c)))"
    using assms(1) by (rule DescendingOrder_traverse_fresh)
  show "SideCrossOrder_traverse (sidecross_order h c) = Inr (side_cross_spec (std_sort (<) (data (h c))))"
    using assms(1) by (rule SideCrossOrder_traverse_fresh)
  show "Order_traverse (mutate c ms h) (order h c) = Inr (data (mutate c ms h c))"
    using assms(2) by (rule Order_traverse_live)
  show "ReverseOrder_traverse (mutate c ms h) (reverse_order h c)
          = Inr (rev (data (mutate c ms h c)))"
    using assms(2) by (rule ReverseOrder_traverse_live)
next
  fix v :: "'a MiddleOutOrder"
  assume v: "middle_out_order h c = Inr v \<and> length (MiddleOutOrder.order_vec v) < 2 ^ 64"
  then have "MiddleOutOrder.pos v = 0"
    by (auto simp: middle_out_order_def MiddleOutOrder_ctor_def Let_def
             split: if_splits sum.splits)
  with v show "MiddleOutOrder_traverse v = Inr (MiddleOutOrder.order_vec v)"
    by (simp add: MiddleOutOrder_traverse_all)
qed

theorem copies_are_snapshots_references_are_live_witness:
  "length (data ((\<lambda>r :: ref. \<lparr>data = [3, 1, 2 :: int]\<rparr>) 0)) < 2 ^ 64 \<and>
   length (data (mutate 0 [Add 0, Remove 3, Remove 9] (\<lambda>r. \<lparr>data = [3, 1, 2 :: int]\<rparr>) 0)) < 2 ^ 64 \<and>
   data (mutate 0 [Add 0, Remove 3, Remove 9] (\<lambda>r. \<lparr>data = [3, 1, 2 :: int]\<rparr>) 0) = [1, 2, 0] \<and>
   AscendingOrder_traverse (ascending_order (\<lambda>r. \<lparr>data = [3, 1, 2 :: int]\<rparr>) 0) = Inr [1, 2, 3] \<and>
   DescendingOrder_traverse (descending_order (\<lambda>r. \<lparr>data = [3, 1, 2 :: int]\<rparr>) 0) = Inr [3, 2, 1] \<and>
   SideCrossOrder_traverse (sidecross_order (\<lambda>r. \<lparr>data = [3, 1, 2 :: int]\<rparr>) 0) = Inr [1, 3, 2] \<and>
   middle_out_order (\<lambda>r. \<lparr>data = [3, 1, 2 :: int]\<rparr>) 0
     = Inr \<lparr>MiddleOutOrder.cont = 0, order_vec = [1, 3, 2], pos = 0\<rparr> \<and>
   MiddleOutOrder_traverse \<lparr>MiddleOutOrder.cont = 0, order_vec = [1, 3, 2 :: int], pos = 0\<rparr>
     = Inr [1, 3, 2] \<and>
   Order_traverse (mutate 0 [Add 0, Remove 3, Remove 9] (\<lambda>r. \<lparr>data = [3, 1, 2 :: int]\<rparr>))
       (order (\<lambda>r. \<lparr>data = [3, 1, 2 :: int]\<rparr>) 0) = Inr [1, 2, 0] \<and>
   ReverseOrder_traverse (mutate 0 [Add 0, Remove 3, Remove 9] (\<lambda>r. \<lparr>data = [3, 1, 2 :: int]\<rparr>))
       (reverse_order (\<lambda>r. \<lparr>data = [3, 1, 2 :: int]\<rparr>) 0) = Inr [0, 2, 1]"
proof -
  let ?h = "\<lambda>r :: ref. \<lparr>data = [3, 1, 2 :: int]\<rparr>"
  have d: "data (mutate 0 [Add 0, Remove 3, Remove 9] ?h 0) = [1, 2, 0]"
    by (simp add: ctor_eval store_eval)
  have h1: "length (data (?h 0)) < 2 ^ 64" by simp
  have h2: "length (data (mutate 0 [Add 0, Remove 3, Remove 9] ?h 0)) < 2 ^ 64"
    by (simp add: d)
  have m: "middle_out_order ?h 0 = Inr \<lparr>MiddleOutOrder.cont = 0, order_vec = [1, 3, 2], pos = 0\<rparr>"
    by (simp add: ctor_eval store_eval)
  have s: "side_cross_spec (std_sort (<) [3, 1, 2 :: int]) = [1, 3, 2]"
    "std_sort (<) [3, 1, 2 :: int] = [1, 2, 3]"
    "std_sort std_greater [3, 1, 2 :: int] = [3, 2, 1]"
    by (simp_all add: ctor_eval)
  show ?thesis
    using copies_are_snapshots_references_are_live [OF h1 h2] d h1 h2 m s
    by simp
qed

text \<open>
  C3, as the specification states it, fails: on the store holding 1, the cursor of \<open>end()\<close>
  of the ascending view is at position 1; \<open>++\<close> puts it at position 2, and it no longer
  equals the cursor of \<open>end()\<close>. The same holds for the reverse view.
\<close>

theorem advance_at_end_leaves_end:
  "AscendingOrder.pos (AscendingOrder_end (ascending_order (\<lambda>r. \<lparr>data = [1 :: int]\<rparr>) 0)) = 1 \<and>
   AscendingOrder.pos (AscendingOrder_inc
       (AscendingOrder_end (ascending_order (\<lambda>r. \<lparr>data = [1 :: int]\<rparr>) 0))) = 2 \<and>
   \<not> AscendingOrder_eq
       (AscendingOrder_inc (AscendingOrder_end (ascending_order (\<lambda>r. \<lparr>data = [1 :: int]\<rparr>) 0)))
       (AscendingOrder_end (ascending_order (\<lambda>r. \<lparr>data = [1 :: int]\<rparr>) 0)) \<and>
   ReverseOrder.pos (ReverseOrder_inc
       (ReverseOrder_end (\<lambda>r. \<lparr>data = [1 :: int]\<rparr>) (reverse_order (\<lambda>r. \<lparr>data = [1 :: int]\<rparr>) 0))) = 2 \<and>
   \<not> ReverseOrder_eq
       (ReverseOrder_inc
          (ReverseOrder_end (\<lambda>r. \<lparr>data = [1 :: int]\<rparr>) (reverse_order (\<lambda>r. \<lparr>data = [1 :: int]\<rparr>) 0)))
       (ReverseOrder_end (\<lambda>r. \<lparr>data = [1 :: int]\<rparr>) (reverse_order (\<lambda>r. \<lparr>data = [1 :: int]\<rparr>) 0))"
  by (simp add: cursor_eval ctor_eval store_eval)

text \<open>
  C3, amended. For each of the six views \<open>++\<close> adds one to the position (modulo \<open>2^64\<close>)
  and changes nothing else, wherever the cursor stands: the advanced cursor differs from
  the cursor it came from, also at or beyond the end. Before the end the new position is
  the next slot.
\<close>

theorem advance_always_adds_one:
  "(AscendingOrder.pos (AscendingOrder_inc ita) = AscendingOrder.pos ita + 1 \<and>
    AscendingOrder.sorted_vec (AscendingOrder_inc ita) = AscendingOrder.sorted_vec ita \<and>
    AscendingOrder_neq (AscendingOrder_inc ita) ita \<and>
    (AscendingOrder.pos ita < vec_size (AscendingOrder.sorted_vec ita) \<longrightarrow>
       unat (AscendingOrder.pos (AscendingOrder_inc ita)) = Suc (unat (AscendingOrder.pos ita)))) \<and>
   (DescendingOrder.pos (DescendingOrder_inc itd) = DescendingOrder.pos itd + 1 \<and>
    DescendingOrder.sorted_vec (DescendingOrder_inc itd) = DescendingOrder.sorted_vec itd \<and>
    DescendingOrder_neq (DescendingOrder_inc itd) itd \<and>
    (DescendingOrder.pos itd < vec_size (DescendingOrder.sorted_vec itd) \<longrightarrow>
       unat (DescendingOrder.pos (DescendingOrder_inc itd)) = Suc (unat (DescendingOrder.pos itd)))) \<and>
   (SideCrossOrder.pos (SideCrossOrder_inc its) = SideCrossOrder.pos its + 1 \<and>
    SideCrossOrder.order_vec (SideCrossOrder_inc its) = SideCrossOrder.order_vec its \<and>
    SideCrossOrder_neq (SideCrossOrder_inc its) its \<and>
    (SideCrossOrder.pos its < vec_size (SideCrossOrder.order_vec its) \<longrightarrow>
       unat (SideCrossOrder.pos (SideCrossOrder_inc its)) = Suc (unat (SideCrossOrder.pos its)))) \<and>
   (ReverseOrder.pos (ReverseOrder_inc itr) = ReverseOrder.pos itr + 1 \<and>
    ReverseOrder.cont (ReverseOrder_inc itr) = ReverseOrder.cont itr \<and>
    ReverseOrder_neq (ReverseOrder_inc itr) itr \<and>
    (ReverseOrder.pos itr < vec_size (get_data (h (ReverseOrder.cont itr))) \<longrightarrow>
       unat (ReverseOrder.pos (ReverseOrder_inc itr)) = Suc (unat (ReverseOrder.pos itr)))) \<and>
   (Order.pos (Order_inc ito) = Order.pos ito + 1 \<and>
    Order.cont (Order_inc ito) = Order.cont ito \<and>
    Order_neq (Order_inc ito) ito \<and>
    (Order.pos ito < vec_size (get_data (h (Order.cont ito))) \<longrightarrow>
       unat (Order.pos (Order_inc ito)) = Suc (unat (Order.pos ito)))) \<and>
   (MiddleOutOrder.pos (MiddleOutOrder_inc itm) = MiddleOutOrder.pos itm + 1 \<and>
    MiddleOutOrder.order_vec (MiddleOutOrder_inc itm) = MiddleOutOrder.order_vec itm \<and>
    MiddleOutOrder_neq (MiddleOutOrder_inc itm) itm \<and>
    (MiddleOutOrder.pos itm < vec_size (MiddleOutOrder.order_vec itm) \<longrightarrow>
       unat (MiddleOutOrder.pos (MiddleOutOrder_inc itm)) = Suc (unat (MiddleOutOrder.pos itm))))"
proof -
  have a: "AscendingOrder.pos (AscendingOrder_inc ita) = AscendingOrder.pos ita + 1"
    and d: "DescendingOrder.pos (DescendingOrder_inc itd) = DescendingOrder.pos itd + 1"
    and s: "SideCrossOrder.pos (SideCrossOrder_inc its) = SideCrossOrder.pos its + 1"
    and r: "ReverseOrder.pos (ReverseOrder_inc itr) = ReverseOrder.pos itr + 1"
    and o: "Order.pos (Order_inc ito) = Order.pos ito + 1"
    and m: "MiddleOutOrder.pos (MiddleOutOrder_inc itm) = MiddleOutOrder.pos itm + 1"
    by (simp_all add: AscendingOrder_inc_def DescendingOrder_inc_def SideCrossOrder_inc_def
        ReverseOrder_inc_def Order_inc_def MiddleOutOrder_inc_def)
  have vecs: "AscendingOrder.sorted_vec (AscendingOrder_inc ita) = AscendingOrder.sorted_vec ita"
    "DescendingOrder.sorted_vec (DescendingOrder_inc itd) = DescendingOrder.sorted_vec itd"
    "SideCrossOrder.order_vec (SideCrossOrder_inc its) = SideCrossOrder.order_vec its"
    "ReverseOrder.cont (ReverseOrder_inc itr) = ReverseOrder.cont itr"
    "Order.cont (Order_inc ito) = Order.cont ito"
    "MiddleOutOrder.order_vec (MiddleOutOrder_inc itm) = MiddleOutOrder.order_vec itm"
    by (simp_all add: AscendingOrder_inc_def DescendingOrder_inc_def SideCrossOrder_inc_def
        ReverseOrder_inc_def Order_inc_def MiddleOutOrder_inc_def)
  have neqs: "AscendingOrder_neq (AscendingOrder_inc ita) ita"
    "DescendingOrder_neq (DescendingOrder_inc itd) itd"
    "SideCrossOrder_neq (SideCrossOrder_inc its) its"
    "ReverseOrder_neq (ReverseOrder_inc itr) itr"
    "Order_neq (Order_inc ito) ito"
    "MiddleOutOrder_neq (MiddleOutOrder_inc itm) itm"
    by (simp_all add: a d s r o m AscendingOrder_neq_def AscendingOrder_eq_def
        DescendingOrder_neq_def DescendingOrder_eq_def SideCrossOrder_neq_def SideCrossOrder_eq_def
        ReverseOrder_neq_def ReverseOrder_eq_def Order_neq_def Order_eq_def
        MiddleOutOrder_neq_def MiddleOutOrder_eq_def)
  show ?thesis
    by (simp only: a d s r o m vecs neqs size_t_less_Suc simp_thms)
       (auto intro: size_t_less_Suc)
qed

theorem advance_always_adds_one_witness:
  "AscendingOrder.pos (ascending_order (\<lambda>r. \<lparr>data = [5, 4 :: int]\<rparr>) 0)
     < vec_size (AscendingOrder.sorted_vec (ascending_order (\<lambda>r. \<lparr>data = [5, 4 :: int]\<rparr>) 0)) \<and>
   unat (AscendingOrder.pos (AscendingOrder_inc (ascending_order (\<lambda>r. \<lparr>data = [5, 4 :: int]\<rparr>) 0)))
     = Suc (unat (AscendingOrder.pos (ascending_order (\<lambda>r. \<lparr>data = [5, 4 :: int]\<rparr>) 0))) \<and>
   DescendingOrder.pos (descending_order (\<lambda>r. \<lparr>data = [5, 4 :: int]\<rparr>) 0)
     < vec_size (DescendingOrder.sorted_vec (descending_order (\<lambda>r. \<lparr>data = [5, 4 :: int]\<rparr>) 0)) \<and>
   unat (DescendingOrder.pos (DescendingOrder_inc (descending_order (\<lambda>r. \<lparr>data = [5, 4 :: int]\<rparr>) 0)))
     = Suc (unat (DescendingOrder.pos (descending_order (\<lambda>r. \<lparr>data = [5, 4 :: int]\<rparr>) 0))) \<and>
   SideCrossOrder.pos (sidecross_order (\<lambda>r. \<lparr>data = [5, 4 :: int]\<rparr>) 0)
     < vec_size (SideCrossOrder.order_vec (sidecross_order (\<lambda>r. \<lparr>data = [5, 4 :: int]\<rparr>) 0)) \<and>
   unat (SideCrossOrder.pos (SideCrossOrder_inc (sidecross_order (\<lambda>r. \<lparr>data = [5, 4 :: int]\<rparr>) 0)))
     = Suc (unat (SideCrossOrder.pos (sidecross_order (\<lambda>r. \<lparr>data = [5, 4 :: int]\<rparr>) 0))) \<and>
   ReverseOrder.pos (reverse_order (\<lambda>r. \<lparr>data = [5, 4 :: int]\<rparr>) 0)
     < vec_size (get_data ((\<lambda>r. \<lparr>data = [5, 4 :: int]\<rparr>)
         (ReverseOrder.cont (reverse_order (\<lambda>r. \<lparr>data = [5, 4 :: int]\<rparr>) 0)))) \<and>
   unat (ReverseOrder.pos (ReverseOrder_inc (reverse_order (\<lambda>r. \<lparr>data = [5, 4 :: int]\<rparr>) 0)))
     = Suc (unat (ReverseOrder.pos (reverse_order (\<lambda>r. \<lparr>data = [5, 4 :: int]\<rparr>) 0))) \<and>
   Order.pos (order (\<lambda>r. \<lparr>data = [5, 4 :: int]\<rparr>) 0)
     < vec_size (get_data ((\<lambda>r. \<lparr>data = [5, 4 :: int]\<rparr>)
         (Order.cont (order (\<lambda>r. \<lparr>data = [5, 4 :: int]\<rparr>) 0)))) \<and>
   unat (Order.pos (Order_inc (order (\<lambda>r. \<lparr>data = [5, 4 :: int]\<rparr>) 0)))
     = Suc (unat (Order.pos (order (\<lambda>r. \<lparr>data = [5, 4 :: int]\<rparr>) 0))) \<and>
   MiddleOutOrder.pos \<lparr>MiddleOutOrder.cont = 0, order_vec = [4, 5 :: int], pos = 0\<rparr>
     < vec_size (MiddleOutOrder.order_vec \<lparr>MiddleOutOrder.cont = 0, order_vec = [4, 5 :: int], pos = 0\<rparr>) \<and>
   unat (MiddleOutOrder.pos
       (MiddleOutOrder_inc \<lparr>MiddleOutOrder.cont = 0, order_vec = [4, 5 :: int], pos = 0\<rparr>))
     = Suc (unat (MiddleOutOrder.pos \<lparr>MiddleOutOrder.cont = 0, order_vec = [4, 5 :: int], pos = 0\<rparr>))"
  using advance_always_adds_one
    [where ita = "ascending_order (\<lambda>r. \<lparr>data = [5, 4 :: int]\<rparr>) 0"
       and itd = "descending_order (\<lambda>r. \<lparr>data = [5, 4 :: int]\<rparr>) 0"
       and its = "sidecross_order (\<lambda>r. \<lparr>data = [5, 4 :: int]\<rparr>) 0"
       and itr = "reverse_order (\<lambda>r. \<lparr>data = [5, 4 :: int]\<rparr>) 0"
       and ito = "order (\<lambda>r. \<lparr>data = [5, 4 :: int]\<rparr>) 0"
       and h = "\<lambda>r. \<lparr>data = [5, 4 :: int]\<rparr>"
       and itm = "\<lparr>MiddleOutOrder.cont = 0, order_vec = [4, 5 :: int], pos = 0\<rparr>"]
  by (simp add: cursor_eval ctor_eval store_eval)

text \<open>
  C4. The side-cross traversal of a store is the store sorted ascending and then read from
  both ends in turn, lowest unconsumed then highest unconsumed, moving inward, a single
  middle element coming once: every slot of the store appears exactly once. On the store
  holding 1, 3, 5, 7, 9 the traversal yields 1, 9, 3, 7, 5.
\<close>

theorem sidecross_alternates:
  fixes h :: "('a :: linorder) heap"
  assumes "length (data (h c)) < 2 ^ 64"
  shows "SideCrossOrder_traverse (sidecross_order h c) = Inr (side_cross_spec (sort (data (h c)))) \<and>
         mset (side_cross_spec (sort (data (h c)))) = mset (data (h c)) \<and>
         SideCrossOrder_traverse (sidecross_order (\<lambda>r. \<lparr>data = [1, 3, 5, 7, 9 :: int]\<rparr>) 0)
           = Inr [1, 9, 3, 7, 5]"
proof (intro conjI)
  have general: "SideCrossOrder_traverse (sidecross_order g d) = Inr (side_cross_spec (sort (data (g d))))"
    if len: "length (data (g d)) < 2 ^ 64" for g :: "('b :: linorder) heap" and d
  proof -
    let ?v = "sidecross_order g d"
    have vec: "SideCrossOrder.order_vec ?v = side_cross_spec (sort (data (g d)))"
      using len by (simp add: sidecross_order_def SideCrossOrder_ctor_order std_sort_less_eq_sort)
    then have "length (SideCrossOrder.order_vec ?v) < 2 ^ 64"
      using len by (simp add: length_side_cross)
    moreover have "SideCrossOrder.pos ?v = 0"
      by (simp add: sidecross_order_def SideCrossOrder_ctor_def Let_def)
    ultimately have "SideCrossOrder_traverse ?v = Inr (SideCrossOrder.order_vec ?v)"
      by (rule SideCrossOrder_traverse_all)
    with vec show ?thesis by simp
  qed
  show "SideCrossOrder_traverse (sidecross_order h c) = Inr (side_cross_spec (sort (data (h c))))"
    using assms by (rule general)
  show "mset (side_cross_spec (sort (data (h c)))) = mset (data (h c))"
    by (simp add: mset_side_cross)
  have "SideCrossOrder_traverse (sidecross_order (\<lambda>r. \<lparr>data = [1, 3, 5, 7, 9 :: int]\<rparr>) 0)
          = Inr (side_cross_spec (sort (data ((\<lambda>r :: ref. \<lparr>data = [1, 3, 5, 7, 9 :: int]\<rparr>) 0))))"
    by (rule general) simp
  then show "SideCrossOrder_traverse (sidecross_order (\<lambda>r. \<lparr>data = [1, 3, 5, 7, 9 :: int]\<rparr>) 0)
          = Inr [1, 9, 3, 7, 5]"
    by simp
qed

theorem sidecross_alternates_witness:
  "length [7, 1, 9, 5, 3 :: int] < 2 ^ 64 \<and>
   SideCrossOrder_traverse (sidecross_order (\<lambda>r. \<lparr>data = [7, 1, 9, 5, 3 :: int]\<rparr>) 0)
     = Inr [1, 9, 3, 7, 5] \<and>
   length [4, 2, 8, 6 :: int] < 2 ^ 64 \<and>
   SideCrossOrder_traverse (sidecross_order (\<lambda>r. \<lparr>data = [4, 2, 8, 6 :: int]\<rparr>) 0)
     = Inr [2, 8, 4, 6]"
  using sidecross_alternates [of "\<lambda>r. \<lparr>data = [7, 1, 9, 5, 3 :: int]\<rparr>" 0]
    sidecross_alternates [of "\<lambda>r. \<lparr>data = [4, 2, 8, 6 :: int]\<rparr>" 0]
  by simp

text \<open>
  C5. The middle-out traversal emits the element at index \<open>size / 2\<close> first and then the
  elements to its left and to its right in turn until both sides are exhausted. The
  constructor does so on every store of fewer than \<open>2^31\<close> elements
  (\<open>MiddleOutOrder_small_store\<close>; 1, 2, 3, 4, 5 gives 3, 2, 4, 1, 5 and 10, 20, 30, 40 gives
  30, 20, 40, 10, \<open>MiddleOutOrder_examples\<close>). On the store of \<open>2^31\<close> elements that holds
  \<open>2^30\<close> ones, a two and \<open>2^30 - 1\<close> threes it does not: the view and its traversal hold
  the two and the ones, and no three.
\<close>

theorem middle_out_large_store_loses_right_side:
  "middle_out_order (\<lambda>r. \<lparr>data = replicate (2 ^ 30) (1 :: int) @ 2 # replicate (2 ^ 30 - 1) 3\<rparr>) 0
     = Inr \<lparr>MiddleOutOrder.cont = 0, order_vec = 2 # replicate (2 ^ 30) 1, pos = 0\<rparr> \<and>
   MiddleOutOrder_traverse
       \<lparr>MiddleOutOrder.cont = 0, order_vec = 2 # replicate (2 ^ 30) (1 :: int), pos = 0\<rparr>
     = Inr (2 # replicate (2 ^ 30) 1) \<and>
   middle_out_spec (replicate (2 ^ 30) (1 :: int) @ 2 # replicate (2 ^ 30 - 1) 3)
     \<noteq> 2 # replicate (2 ^ 30) 1"
proof (intro conjI)
  show "middle_out_order (\<lambda>r. \<lparr>data = replicate (2 ^ 30) (1 :: int) @ 2 # replicate (2 ^ 30 - 1) 3\<rparr>) 0
     = Inr \<lparr>MiddleOutOrder.cont = 0, order_vec = 2 # replicate (2 ^ 30) 1, pos = 0\<rparr>"
    unfolding middle_out_order_def by (rule large_store_ctor)
  have "length (2 # replicate (2 ^ 30) (1 :: int)) < 2 ^ 64" by simp
  then show "MiddleOutOrder_traverse
       \<lparr>MiddleOutOrder.cont = 0, order_vec = 2 # replicate (2 ^ 30) (1 :: int), pos = 0\<rparr>
     = Inr (2 # replicate (2 ^ 30) 1)"
    using MiddleOutOrder_traverse_all
      [of "\<lparr>MiddleOutOrder.cont = 0, order_vec = 2 # replicate (2 ^ 30) (1 :: int), pos = 0\<rparr>"]
    by simp
  have "length (middle_out_spec (replicate (2 ^ 30) (1 :: int) @ 2 # replicate (2 ^ 30 - 1) 3))
          \<noteq> length (2 # replicate (2 ^ 30) (1 :: int))"
    by (simp add: length_middle_out)
  then show "middle_out_spec (replicate (2 ^ 30) (1 :: int) @ 2 # replicate (2 ^ 30 - 1) 3)
     \<noteq> 2 # replicate (2 ^ 30) 1"
    by metis
qed

text \<open>
  C6. The traversal of the ascending view of a store ends without an exception, and its
  output is non-decreasing and has the elements of the store, each as often as the store.
\<close>

theorem ascending_sorted_permutation:
  fixes h :: "('a :: linorder) heap"
  assumes "length (data (h c)) < 2 ^ 64"
  shows "\<exists>ys. AscendingOrder_traverse (ascending_order h c) = Inr ys \<and>
              sorted ys \<and> mset ys = mset (data (h c))"
proof (intro exI conjI)
  show "AscendingOrder_traverse (ascending_order h c) = Inr (std_sort (<) (data (h c)))"
    using assms by (rule AscendingOrder_traverse_fresh)
  show "sorted (std_sort (<) (data (h c)))" by (rule sorted_std_sort_less)
  show "mset (std_sort (<) (data (h c))) = mset (data (h c))" by (rule mset_std_sort)
qed

theorem ascending_sorted_permutation_witness:
  "length [7, 15, 6, 1, 6 :: int] < 2 ^ 64 \<and>
   (\<exists>ys. AscendingOrder_traverse (ascending_order (\<lambda>r. \<lparr>data = [7, 15, 6, 1, 6 :: int]\<rparr>) 0) = Inr ys
        \<and> sorted ys \<and> mset ys = mset [7, 15, 6, 1, 6]) \<and>
   AscendingOrder_traverse (ascending_order (\<lambda>r. \<lparr>data = [7, 15, 6, 1, 6 :: int]\<rparr>) 0)
     = Inr [1, 6, 6, 7, 15]"
proof -
  have h: "length (data ((\<lambda>r :: ref. \<lparr>data = [7, 15, 6, 1, 6 :: int]\<rparr>) 0)) < 2 ^ 64" by simp
  have v: "AscendingOrder_traverse (ascending_order (\<lambda>r. \<lparr>data = [7, 15, 6, 1, 6 :: int]\<rparr>) 0)
     = Inr [1, 6, 6, 7, 15]"
    by (simp add: cursor_eval ctor_eval store_eval)
  show ?thesis
    using h ascending_sorted_permutation [OF h] v by simp
qed

text \<open>
  C7. On every store the traversal of the reverse view is the traversal of the
  insertion-order view read backward: element \<open>i\<close> of the one is element \<open>size - 1 - i\<close> of
  the other.
\<close>

theorem reverse_is_order_backward:
  assumes "length (data (h c)) < 2 ^ 64"
  shows "\<exists>ys. Order_traverse h (order h c) = Inr ys \<and>
              ReverseOrder_traverse h (reverse_order h c) = Inr (rev ys) \<and>
              length ys = length (data (h c)) \<and>
              (\<forall>i < length ys. rev ys ! i = ys ! (length ys - 1 - i))"
proof (intro exI conjI allI impI)
  show "Order_traverse h (order h c) = Inr (data (h c))"
    using assms by (rule Order_traverse_live)
  show "ReverseOrder_traverse h (reverse_order h c) = Inr (rev (data (h c)))"
    using assms by (rule ReverseOrder_traverse_live)
  show "length (data (h c)) = length (data (h c))" by simp
  fix i assume "i < length (data (h c))"
  then show "rev (data (h c)) ! i = data (h c) ! (length (data (h c)) - 1 - i)"
    by (simp add: rev_nth)
qed

theorem reverse_is_order_backward_witness:
  "length [7, 15, 6, 1, 2 :: int] < 2 ^ 64 \<and>
   Order_traverse (\<lambda>r. \<lparr>data = [7, 15, 6, 1, 2 :: int]\<rparr>) (order (\<lambda>r. \<lparr>data = [7, 15, 6, 1, 2 :: int]\<rparr>) 0)
     = Inr [7, 15, 6, 1, 2] \<and>
   ReverseOrder_traverse (\<lambda>r. \<lparr>data = [7, 15, 6, 1, 2 :: int]\<rparr>)
       (reverse_order (\<lambda>r. \<lparr>data = [7, 15, 6, 1, 2 :: int]\<rparr>) 0)
     = Inr [2, 1, 6, 15, 7]"
proof -
  have h: "length (data ((\<lambda>r :: ref. \<lparr>data = [7, 15, 6, 1, 2 :: int]\<rparr>) 0)) < 2 ^ 64" by simp
  obtain ys where
    o: "Order_traverse (\<lambda>r. \<lparr>data = [7, 15, 6, 1, 2 :: int]\<rparr>) (order (\<lambda>r. \<lparr>data = [7, 15, 6, 1, 2 :: int]\<rparr>) 0) = Inr ys"
    and r: "ReverseOrder_traverse (\<lambda>r. \<lparr>data = [7, 15, 6, 1, 2 :: int]\<rparr>)
       (reverse_order (\<lambda>r. \<lparr>data = [7, 15, 6, 1, 2 :: int]\<rparr>) 0) = Inr (rev ys)"
    using reverse_is_order_backward [OF h] by blast
  have "Order_traverse (\<lambda>r. \<lparr>data = [7, 15, 6, 1, 2 :: int]\<rparr>) (order (\<lambda>r. \<lparr>data = [7, 15, 6, 1, 2 :: int]\<rparr>) 0)
     = Inr [7, 15, 6, 1, 2]"
    by (simp add: cursor_eval ctor_eval store_eval)
  with o have "ys = [7, 15, 6, 1, 2]" by simp
  with o r show ?thesis by simp
qed

text \<open>
  C8. On the empty store each of the six views is built without an error, the views that
  keep a vector keep the empty one, the cursor of \<open>begin\<close> equals the cursor of \<open>end\<close>, and
  the traversal emits nothing. On a store holding the one element \<open>x\<close> the traversal of
  each of the six views emits \<open>x\<close> and nothing else.
\<close>

theorem empty_and_singleton_views:
  fixes h :: "('a :: linorder) heap"
  shows
  "(data (h c) = [] \<longrightarrow>
      AscendingOrder.sorted_vec (ascending_order h c) = [] \<and>
      AscendingOrder_eq (AscendingOrder_begin (ascending_order h c))
                        (AscendingOrder_end (ascending_order h c)) \<and>
      AscendingOrder_traverse (ascending_order h c) = Inr [] \<and>
      DescendingOrder.sorted_vec (descending_order h c) = [] \<and>
      DescendingOrder_eq (DescendingOrder_begin (descending_order h c))
                         (DescendingOrder_end (descending_order h c)) \<and>
      DescendingOrder_traverse (descending_order h c) = Inr [] \<and>
      SideCrossOrder.order_vec (sidecross_order h c) = [] \<and>
      SideCrossOrder_eq (SideCrossOrder_begin (sidecross_order h c))
                        (SideCrossOrder_end (sidecross_order h c)) \<and>
      SideCrossOrder_traverse (sidecross_order h c) = Inr [] \<and>
      ReverseOrder_eq (ReverseOrder_begin (reverse_order h c))
                      (ReverseOrder_end h (reverse_order h c)) \<and>
      ReverseOrder_traverse h (reverse_order h c) = Inr [] \<and>
      Order_eq (Order_begin (order h c)) (Order_end h (order h c)) \<and>
      Order_traverse h (order h c) = Inr [] \<and>
      (\<exists>v. middle_out_order h c = Inr v \<and>
           MiddleOutOrder.order_vec v = [] \<and>
           MiddleOutOrder_eq (MiddleOutOrder_begin v) (MiddleOutOrder_end v) \<and>
           MiddleOutOrder_traverse v = Inr [])) \<and>
   (data (h c) = [x] \<longrightarrow>
      AscendingOrder_traverse (ascending_order h c) = Inr [x] \<and>
      DescendingOrder_traverse (descending_order h c) = Inr [x] \<and>
      SideCrossOrder_traverse (sidecross_order h c) = Inr [x] \<and>
      ReverseOrder_traverse h (reverse_order h c) = Inr [x] \<and>
      Order_traverse h (order h c) = Inr [x] \<and>
      (\<exists>v. middle_out_order h c = Inr v \<and> MiddleOutOrder_traverse v = Inr [x]))"
proof (intro conjI impI)
  assume e: "data (h c) = []"
  then have len: "length (data (h c)) < 2 ^ 64" by simp
  show "AscendingOrder.sorted_vec (ascending_order h c) = []"
    using e by (simp add: ascending_order_def AscendingOrder_ctor_def get_data_def std_sort_def)
  then show "AscendingOrder_eq (AscendingOrder_begin (ascending_order h c))
                        (AscendingOrder_end (ascending_order h c))"
    by (simp add: AscendingOrder_eq_def AscendingOrder_begin_def AscendingOrder_end_def
        vec_size_def ascending_order_def AscendingOrder_ctor_def)
  show "AscendingOrder_traverse (ascending_order h c) = Inr []"
    using AscendingOrder_traverse_fresh [where h = h and c = c, OF len] e by (simp add: std_sort_def)
  show "DescendingOrder.sorted_vec (descending_order h c) = []"
    using e by (simp add: descending_order_def DescendingOrder_ctor_def get_data_def std_sort_def)
  then show "DescendingOrder_eq (DescendingOrder_begin (descending_order h c))
                         (DescendingOrder_end (descending_order h c))"
    by (simp add: DescendingOrder_eq_def DescendingOrder_begin_def DescendingOrder_end_def
        vec_size_def descending_order_def DescendingOrder_ctor_def)
  show "DescendingOrder_traverse (descending_order h c) = Inr []"
    using DescendingOrder_traverse_fresh [where h = h and c = c, OF len] e by (simp add: std_sort_def)
  show "SideCrossOrder.order_vec (sidecross_order h c) = []"
    using e by (simp add: sidecross_order_def SideCrossOrder_ctor_def get_data_def std_sort_def)
  then show "SideCrossOrder_eq (SideCrossOrder_begin (sidecross_order h c))
                        (SideCrossOrder_end (sidecross_order h c))"
    using e
    by (simp add: SideCrossOrder_eq_def SideCrossOrder_begin_def SideCrossOrder_end_def
        vec_size_def sidecross_order_def SideCrossOrder_ctor_def get_data_def std_sort_def)
  show "SideCrossOrder_traverse (sidecross_order h c) = Inr []"
    using SideCrossOrder_traverse_fresh [where h = h and c = c, OF len] e by (simp add: std_sort_def)
  show "ReverseOrder_eq (ReverseOrder_begin (reverse_order h c))
                      (ReverseOrder_end h (reverse_order h c))"
    using e
    by (simp add: ReverseOrder_eq_def ReverseOrder_begin_def ReverseOrder_end_def vec_size_def
        reverse_order_def ReverseOrder_ctor_def get_data_def)
  show "ReverseOrder_traverse h (reverse_order h c) = Inr []"
    using ReverseOrder_traverse_live [where h' = h and c = c and h = h, OF len] e by simp
  show "Order_eq (Order_begin (order h c)) (Order_end h (order h c))"
    using e
    by (simp add: Order_eq_def Order_begin_def Order_end_def vec_size_def
        order_def Order_ctor_def get_data_def)
  show "Order_traverse h (order h c) = Inr []"
    using Order_traverse_live [where h' = h and c = c and h = h, OF len] e by simp
  let ?v = "\<lparr>MiddleOutOrder.cont = c, order_vec = data (h c), pos = 0\<rparr>"
  have "middle_out_order h c = Inr ?v \<and> MiddleOutOrder_traverse ?v = Inr (data (h c))"
    using e MiddleOutOrder_empty_or_single [where h = h and c = c] by simp
  moreover have "MiddleOutOrder_eq (MiddleOutOrder_begin ?v) (MiddleOutOrder_end ?v)"
    using e
    by (simp add: MiddleOutOrder_eq_def MiddleOutOrder_begin_def MiddleOutOrder_end_def
        vec_size_def)
  ultimately show "\<exists>v. middle_out_order h c = Inr v \<and>
           MiddleOutOrder.order_vec v = [] \<and>
           MiddleOutOrder_eq (MiddleOutOrder_begin v) (MiddleOutOrder_end v) \<and>
           MiddleOutOrder_traverse v = Inr []"
    using e by (intro exI [of _ ?v]) simp
next
  assume s: "data (h c) = [x]"
  then have len: "length (data (h c)) < 2 ^ 64" by simp
  show "AscendingOrder_traverse (ascending_order h c) = Inr [x]"
    using AscendingOrder_traverse_fresh [where h = h and c = c, OF len] s by (simp add: std_sort_def)
  show "DescendingOrder_traverse (descending_order h c) = Inr [x]"
    using DescendingOrder_traverse_fresh [where h = h and c = c, OF len] s by (simp add: std_sort_def)
  show "SideCrossOrder_traverse (sidecross_order h c) = Inr [x]"
    using SideCrossOrder_traverse_fresh [where h = h and c = c, OF len] s by (simp add: std_sort_def)
  show "ReverseOrder_traverse h (reverse_order h c) = Inr [x]"
    using ReverseOrder_traverse_live [where h' = h and c = c and h = h, OF len] s by simp
  show "Order_traverse h (order h c) = Inr [x]"
    using Order_traverse_live [where h' = h and c = c and h = h, OF len] s by simp
  let ?v = "\<lparr>MiddleOutOrder.cont = c, order_vec = data (h c), pos = 0\<rparr>"
  have "middle_out_order h c = Inr ?v \<and> MiddleOutOrder_traverse ?v = Inr (data (h c))"
    using s MiddleOutOrder_empty_or_single [where h = h and c = c and x = x] by simp
  then show "\<exists>v. middle_out_order h c = Inr v \<and> MiddleOutOrder_traverse v = Inr [x]"
    using s by (intro exI [of _ ?v]) simp
qed

theorem empty_and_singleton_views_witness:
  "data ((\<lambda>r :: ref. \<lparr>data = ([] :: int list)\<rparr>) 0) = [] \<and>
   AscendingOrder_traverse (ascending_order (\<lambda>r. \<lparr>data = ([] :: int list)\<rparr>) 0) = Inr [] \<and>
   ReverseOrder_traverse (\<lambda>r. \<lparr>data = ([] :: int list)\<rparr>)
     (reverse_order (\<lambda>r. \<lparr>data = ([] :: int list)\<rparr>) 0) = Inr [] \<and>
   middle_out_order (\<lambda>r. \<lparr>data = ([] :: int list)\<rparr>) 0
     = Inr \<lparr>MiddleOutOrder.cont = 0, order_vec = [], pos = 0\<rparr> \<and>
   data ((\<lambda>r :: ref. \<lparr>data = [42 :: int]\<rparr>) 0) = [42] \<and>
   AscendingOrder_traverse (ascending_order (\<lambda>r. \<lparr>data = [42 :: int]\<rparr>) 0) = Inr [42] \<and>
   DescendingOrder_traverse (descending_order (\<lambda>r. \<lparr>data = [42 :: int]\<rparr>) 0) = Inr [42] \<and>
   SideCrossOrder_traverse (sidecross_order (\<lambda>r. \<lparr>data = [42 :: int]\<rparr>) 0) = Inr [42] \<and>
   ReverseOrder_traverse (\<lambda>r. \<lparr>data = [42 :: int]\<rparr>)
     (reverse_order (\<lambda>r. \<lparr>data = [42 :: int]\<rparr>) 0) = Inr [42] \<and>
   Order_traverse (\<lambda>r. \<lparr>data = [42 :: int]\<rparr>) (order (\<lambda>r. \<lparr>data = [42 :: int]\<rparr>) 0) = Inr [42] \<and>
   middle_out_order (\<lambda>r. \<lparr>data = [42 :: int]\<rparr>) 0
     = Inr \<lparr>MiddleOutOrder.cont = 0, order_vec = [42], pos = 0\<rparr>"
proof -
  have m0: "middle_out_order (\<lambda>r. \<lparr>data = ([] :: int list)\<rparr>) 0
     = Inr \<lparr>MiddleOutOrder.cont = 0, order_vec = [], pos = 0\<rparr>"
    by (simp add: ctor_eval store_eval)
  have m1: "middle_out_order (\<lambda>r. \<lparr>data = [42 :: int]\<rparr>) 0
     = Inr \<lparr>MiddleOutOrder.cont = 0, order_vec = [42], pos = 0\<rparr>"
    by (simp add: ctor_eval store_eval)
  show ?thesis
    using empty_and_singleton_views [of "\<lambda>r. \<lparr>data = ([] :: int list)\<rparr>" 0]
      empty_and_singleton_views [of "\<lambda>r. \<lparr>data = [42 :: int]\<rparr>" 0 42] m0 m1
    by simp
qed

text \<open>
  C9. \<open>begin()\<close> of a view whose cursor has been advanced is a cursor at position 0. The
  code returns \<open>*this\<close>, the view with the position it has: on the store 1, 2, 3, after one
  \<open>++\<close> on the ascending view, \<open>begin()\<close> is at position 1, it points at 2, and a
  traversal of the view emits 2, 3; likewise the reverse view is at position 1, points at
  2 and emits 2, 1.
\<close>

theorem begin_after_advance_is_not_at_zero:
  "AscendingOrder.pos (AscendingOrder_begin
       (AscendingOrder_inc (ascending_order (\<lambda>r. \<lparr>data = [1, 2, 3 :: int]\<rparr>) 0))) = 1 \<and>
   AscendingOrder_deref (AscendingOrder_begin
       (AscendingOrder_inc (ascending_order (\<lambda>r. \<lparr>data = [1, 2, 3 :: int]\<rparr>) 0))) = Inr 2 \<and>
   AscendingOrder_traverse
       (AscendingOrder_inc (ascending_order (\<lambda>r. \<lparr>data = [1, 2, 3 :: int]\<rparr>) 0)) = Inr [2, 3] \<and>
   ReverseOrder.pos (ReverseOrder_begin
       (ReverseOrder_inc (reverse_order (\<lambda>r. \<lparr>data = [1, 2, 3 :: int]\<rparr>) 0))) = 1 \<and>
   ReverseOrder_deref (\<lambda>r. \<lparr>data = [1, 2, 3 :: int]\<rparr>) (ReverseOrder_begin
       (ReverseOrder_inc (reverse_order (\<lambda>r. \<lparr>data = [1, 2, 3 :: int]\<rparr>) 0))) = Inr 2 \<and>
   ReverseOrder_traverse (\<lambda>r. \<lparr>data = [1, 2, 3 :: int]\<rparr>)
       (ReverseOrder_inc (reverse_order (\<lambda>r. \<lparr>data = [1, 2, 3 :: int]\<rparr>) 0)) = Inr [2, 1]"
  by (simp add: cursor_eval ctor_eval store_eval)

text \<open>For each of the six views, \<open>begin()\<close> has the position of the view.\<close>

lemma begin_keeps_position:
  "AscendingOrder.pos (AscendingOrder_begin va) = AscendingOrder.pos va"
  "DescendingOrder.pos (DescendingOrder_begin vd) = DescendingOrder.pos vd"
  "SideCrossOrder.pos (SideCrossOrder_begin vs) = SideCrossOrder.pos vs"
  "ReverseOrder.pos (ReverseOrder_begin vr) = ReverseOrder.pos vr"
  "Order.pos (Order_begin vo) = Order.pos vo"
  "MiddleOutOrder.pos (MiddleOutOrder_begin vm) = MiddleOutOrder.pos vm"
  by (simp_all add: AscendingOrder_begin_def DescendingOrder_begin_def SideCrossOrder_begin_def
      ReverseOrder_begin_def Order_begin_def MiddleOutOrder_begin_def)

end
